theory Spec2Isabelle
  imports Complex_Main
begin

section \<open>Data model (backend/database.py)\<close>

text \<open>
  The SQLModel tables become records and the store is the list of rows of each table,
  in insertion order. Identifiers are Python ints. A confidence is a Python float; the
  model uses exact rationals. The only operations on confidences are storing a value and
  comparing it with the literals 0.30 and 0.90, and rounding a decimal literal to the
  nearest double keeps the order of the values compared here. A datetime is an abstract
  timestamp, and the \<open>created_at\<close> columns (wall-clock time) are left out.
\<close>

type_synonym datetime = nat

record ImageTagLink =
  link_image_id :: int
  link_tag_id :: int
  confidence :: rat
  source :: string
  is_verified :: bool

record Album =
  album_id :: int
  album_name :: string
  slug :: string
  root_path :: string
  album_is_deleted :: bool
  album_owner_id :: "int option"

record Tag =
  tag_id :: int
  tag_name :: string
  tag_category :: string

record Image =
  image_id :: int
  album_ref :: int
  image_owner_id :: "int option"
  filename :: string
  path :: string
  file_hash :: string
  captured_at :: "datetime option"
  width :: "int option"
  height :: "int option"
  file_size :: "int option"
  camera_model :: "string option"
  is_processed :: bool
  is_deleted :: bool

record store =
  albums :: "Album list"
  images :: "Image list"
  tags :: "Tag list"
  links :: "ImageTagLink list"

text \<open>
  \<open>session.exec(select(...).where(...)).first()\<close>, the first matching row or None, is
  \<^const>\<open>find\<close> on the table.
\<close>

definition has_key :: "int \<Rightarrow> int \<Rightarrow> ImageTagLink \<Rightarrow> bool" where
  "has_key i t l \<longleftrightarrow> link_image_id l = i \<and> link_tag_id l = t"

section \<open>Review queue (backend/routers/review.py)\<close>

record ReviewItem =
  ri_image_id :: int
  ri_tag_id :: int
  image_hash :: string
  ri_tag_name :: string
  ri_confidence :: rat

datatype http_error = HTTPException (status_code: int) (detail: string)

text \<open>The four \<open>.where(...)\<close> conditions of the selection, on one joined row.\<close>

definition review_where :: "ImageTagLink \<Rightarrow> Image \<Rightarrow> Tag \<Rightarrow> bool" where
  "review_where link img tag \<longleftrightarrow>
     is_verified link = False \<and> confidence link < 0.90 \<and> confidence link > 0.30
     \<and> is_deleted img = False"

text \<open>The two inner joins followed by the filter: the rows the statement ranges over.\<close>

definition review_rows :: "store \<Rightarrow> (ImageTagLink \<times> Image \<times> Tag) list" where
  "review_rows st =
     [(link, img, tag).
        link \<leftarrow> links st,
        img \<leftarrow> images st, link_image_id link = image_id img,
        tag \<leftarrow> tags st, link_tag_id link = tag_id tag,
        review_where link img tag]"

text \<open>\<open>.limit(n)\<close> on SQLite, the engine database.py configures: a negative limit is no limit.\<close>

definition sql_limit :: "int \<Rightarrow> 'a list \<Rightarrow> 'a list" where
  "sql_limit n rows = (if n < 0 then rows else take (nat n) rows)"

definition review_item :: "ImageTagLink \<times> Image \<times> Tag \<Rightarrow> ReviewItem" where
  "review_item r = (case r of (link, img, tag) \<Rightarrow>
     \<lparr>ri_image_id = image_id img, ri_tag_id = tag_id tag, image_hash = file_hash img,
      ri_tag_name = tag_name tag, ri_confidence = confidence link\<rparr>)"

definition get_review_items :: "int \<Rightarrow> store \<Rightarrow> ReviewItem list" where
  "get_review_items limit st = map review_item (sql_limit limit (review_rows st))"

text \<open>
  \<open>review_tag\<close>: the link is looked up first (404 when absent), then the action is
  dispatched. Approval updates the row with that primary key, rejection deletes it.
\<close>

definition approve_link :: "ImageTagLink \<Rightarrow> ImageTagLink" where
  "approve_link l = l\<lparr>is_verified := True, confidence := 1.0\<rparr>"

definition review_tag :: "int \<Rightarrow> int \<Rightarrow> string \<Rightarrow> store \<Rightarrow> http_error + store" where
  "review_tag image_id' tag_id' action st =
     (case find (has_key image_id' tag_id') (links st) of
        None \<Rightarrow> Inl (HTTPException 404 ''Tag link not found'')
      | Some link \<Rightarrow>
          if action = ''approve'' then
            Inr (st\<lparr>links := map (\<lambda>l. if has_key image_id' tag_id' l then approve_link l else l)
                                (links st)\<rparr>)
          else if action = ''reject'' then
            Inr (st\<lparr>links := filter (\<lambda>l. \<not> has_key image_id' tag_id' l) (links st)\<rparr>)
          else Inl (HTTPException 400 ''Invalid action. Use 'approve' or 'reject'.''))"

section \<open>AI engine (backend/services/ai_engine.py)\<close>

text \<open>
  A candidate is the dict the analyzers build. Python strings are modelled over the ASCII
  alphabet: \<open>isdigit\<close>, \<open>isupper\<close> and \<open>strip\<close> are the ASCII character classes. On that
  alphabet \<open>str.isdigit\<close> accepts decimal digits only, so the \<open>int(...)\<close> that follows it
  cannot raise; the raising branch is kept in the model and shown unreachable.
\<close>

record tag_item =
  name :: string
  ti_confidence :: rat
  ti_source :: string
  category :: "string option"

datatype exn = OSError | IntegrityError | ValueError | RuntimeError

definition isspace :: "char \<Rightarrow> bool" where
  "isspace c \<longleftrightarrow> c \<in> set [CHR 0x09, CHR 0x0A, CHR 0x0B, CHR 0x0C, CHR 0x0D,
                             CHR 0x1C, CHR 0x1D, CHR 0x1E, CHR 0x1F, CHR '' '']"

definition strip :: "string \<Rightarrow> string" where
  "strip s = rev (dropWhile isspace (rev (dropWhile isspace s)))"

definition isdigit :: "string \<Rightarrow> bool" where
  "isdigit s \<longleftrightarrow> s \<noteq> [] \<and> list_all (\<lambda>c. c \<in> set ''0123456789'') s"

definition isupper :: "string \<Rightarrow> bool" where
  "isupper s \<longleftrightarrow> list_ex (\<lambda>c. c \<in> set ''ABCDEFGHIJKLMNOPQRSTUVWXYZ'') s
                \<and> \<not> list_ex (\<lambda>c. c \<in> set ''abcdefghijklmnopqrstuvwxyz'') s"

text \<open>\<open>int(s)\<close> as it is used here, on a digit string; ValueError on any other character.\<close>

definition py_int :: "string \<Rightarrow> exn + int" where
  "py_int s = (if s \<noteq> [] \<and> list_all (\<lambda>c. c \<in> set ''0123456789'') s
               then Inr (foldl (\<lambda>n c. 10 * n + (of_char c - 48)) 0 s)
               else Inl ValueError)"

record ai_config =
  clip_labels :: "string list"
  clip_confidence_threshold :: rat
  ocr_enabled :: bool

text \<open>
  The models are outside the repository and enter as parameters: whether an image file
  loads, the softmax probabilities CLIP gives for the loaded images (one row per image,
  one column per label; None when inference raises), whether the OCR reader can be
  constructed, and the fragments EasyOCR reads from a path together with the
  recognizer's own score of each (None when reading raises).
\<close>

record ai_env =
  config :: ai_config
  load_pil_image :: "string \<Rightarrow> bool"
  clip_probs :: "string list \<Rightarrow> rat list list option"
  ocr_reader_loads :: bool
  readtext :: "string \<Rightarrow> (string \<times> rat) list option"

definition clip_item :: "string \<Rightarrow> rat \<Rightarrow> tag_item" where
  "clip_item label score =
     \<lparr>name = label, ti_confidence = score, ti_source = ''ai_clip'',
      category = Some ''auto_classified''\<rparr>"

text \<open>The labels above the threshold for one image, sorted by confidence, highest first
  (Python's sort is stable, as \<^const>\<open>sort_key\<close> is).\<close>

definition label_items :: "ai_config \<Rightarrow> rat list \<Rightarrow> tag_item list" where
  "label_items cfg image_probs =
     sort_key (\<lambda>x. - ti_confidence x)
       [clip_item label score. (label, score) \<leftarrow> zip (clip_labels cfg) image_probs,
                                score > clip_confidence_threshold cfg]"

text \<open>Mapping the rows of the inference result back to the positions of the images that loaded.\<close>

fun map_back :: "ai_env \<Rightarrow> string list \<Rightarrow> rat list list \<Rightarrow> tag_item list list" where
  "map_back env [] probs = []"
| "map_back env (p # ps) probs =
     (if load_pil_image env p then
        (case probs of
           [] \<Rightarrow> [] # map_back env ps []
         | image_probs # rest \<Rightarrow> label_items (config env) image_probs # map_back env ps rest)
      else [] # map_back env ps probs)"

definition analyze_batch_semantics :: "ai_env \<Rightarrow> string list \<Rightarrow> tag_item list list" where
  "analyze_batch_semantics env image_paths =
     (let batch_results = replicate (length image_paths) [];
          valid_images = filter (load_pil_image env) image_paths
      in if valid_images = [] then batch_results
         else (case clip_probs env valid_images of
                 None \<Rightarrow> batch_results
               | Some probs \<Rightarrow> map_back env image_paths probs))"

definition number_item :: "string \<Rightarrow> tag_item" where
  "number_item clean_text =
     \<lparr>name = clean_text, ti_confidence = 0.90, ti_source = ''ai_ocr'', category = Some ''number''\<rparr>"

definition text_item :: "string \<Rightarrow> tag_item" where
  "text_item clean_text =
     \<lparr>name = clean_text, ti_confidence = 0.80, ti_source = ''ai_ocr'', category = Some ''text''\<rparr>"

text \<open>The first condition, \<open>clean_text.isdigit() and 1 <= int(clean_text) <= 999\<close>.\<close>

definition number_test :: "string \<Rightarrow> exn + bool" where
  "number_test clean_text =
     (if isdigit clean_text then
        (case py_int clean_text of Inl e \<Rightarrow> Inl e | Inr n \<Rightarrow> Inr (1 \<le> n \<and> n \<le> 999))
      else Inr False)"

text \<open>The loop over the fragments. An exception leaves it through the enclosing
  \<open>try\<close>, and the candidates collected so far are returned.\<close>

fun ocr_loop :: "string list \<Rightarrow> tag_item list \<Rightarrow> tag_item list" where
  "ocr_loop [] results = results"
| "ocr_loop (text # texts) results =
     (let clean_text = strip text in
      case number_test clean_text of
        Inl e \<Rightarrow> results
      | Inr True \<Rightarrow> ocr_loop texts (results @ [number_item clean_text])
      | Inr False \<Rightarrow>
          if length clean_text > 3 \<and> isupper clean_text
          then ocr_loop texts (results @ [text_item clean_text])
          else ocr_loop texts results)"

text \<open>\<open>readtext(image_path, detail=0)\<close> returns the texts alone.\<close>

definition analyze_image_text :: "ai_env \<Rightarrow> string \<Rightarrow> tag_item list" where
  "analyze_image_text env image_path =
     (if \<not> ocr_enabled (config env) then []
      else if \<not> ocr_reader_loads env then []
      else (case readtext env image_path of
              None \<Rightarrow> []
            | Some fragments \<Rightarrow> ocr_loop (map fst fragments) []))"

text \<open>\<open>analyze_batch\<close>: \<open>get_ocr_reader()\<close> is called outside any \<open>try\<close>, so a reader
  that cannot be constructed makes the whole call raise.\<close>

definition analyze_batch :: "ai_env \<Rightarrow> string list \<Rightarrow> exn + tag_item list list" where
  "analyze_batch env image_paths =
     (let clip_results = analyze_batch_semantics env image_paths in
      if ocr_enabled (config env) then
        (if ocr_reader_loads env
         then Inr (map2 (@) clip_results (map (analyze_image_text env) image_paths))
         else Inl RuntimeError)
      else Inr (map2 (@) clip_results (replicate (length image_paths) [])))"

section \<open>AI worker (backend/workers/ai_processor.py)\<close>

text \<open>
  The worker is modelled as one sequential session: nothing is written by another
  session between a lookup and the insert that follows it, so the inserts of the
  persist phase cannot violate a constraint. A new row gets the next integer key.
\<close>

definition next_id :: "int list \<Rightarrow> int" where
  "next_id ids = foldr max ids 0 + 1"

definition find_or_create_tag :: "store \<Rightarrow> string \<Rightarrow> string \<Rightarrow> store \<times> Tag" where
  "find_or_create_tag st tag_name' category' =
     (case find (\<lambda>t. tag_name t = tag_name') (tags st) of
        Some tag \<Rightarrow> (st, tag)
      | None \<Rightarrow>
          (let tag = \<lparr>tag_id = next_id (map tag_id (tags st)), tag_name = tag_name',
                      tag_category = category'\<rparr>
           in (st\<lparr>tags := tags st @ [tag]\<rparr>, tag)))"

definition new_link :: "int \<Rightarrow> int \<Rightarrow> tag_item \<Rightarrow> ImageTagLink" where
  "new_link img_id tag_id' tag_item =
     \<lparr>link_image_id = img_id, link_tag_id = tag_id', confidence = ti_confidence tag_item,
      source = ti_source tag_item, is_verified = False\<rparr>"

definition save_tag_item :: "int \<Rightarrow> store \<Rightarrow> tag_item \<Rightarrow> store" where
  "save_tag_item img_id st tag_item =
     (case find_or_create_tag st (name tag_item)
             (case category tag_item of None \<Rightarrow> ''general'' | Some c \<Rightarrow> c) of
        (st1, tag) \<Rightarrow>
          (case find (has_key img_id (tag_id tag)) (links st1) of
             Some existing_link \<Rightarrow> st1
           | None \<Rightarrow> st1\<lparr>links := links st1 @ [new_link img_id (tag_id tag) tag_item]\<rparr>))"

definition set_processed :: "int \<Rightarrow> store \<Rightarrow> store" where
  "set_processed img_id st =
     st\<lparr>images := map (\<lambda>img. if image_id img = img_id then img\<lparr>is_processed := True\<rparr> else img)
                      (images st)\<rparr>"

definition save_image_result :: "store \<Rightarrow> int \<times> tag_item list \<Rightarrow> store" where
  "save_image_result st r = (case r of (img_id, tags_data) \<Rightarrow>
     if find (\<lambda>img. image_id img = img_id) (images st) = None then st
     else if tags_data = [] then set_processed img_id st
     else set_processed img_id (foldl (save_tag_item img_id) st tags_data))"

definition process_batch :: "ai_env \<Rightarrow> store \<Rightarrow> (int \<times> string) list \<Rightarrow> store" where
  "process_batch env st batch_tuples =
     (case analyze_batch env (map snd batch_tuples) of
        Inl e \<Rightarrow> st
      | Inr batch_results \<Rightarrow> foldl save_image_result st (zip (map fst batch_tuples) batch_results))"

text \<open>\<open>worklist[i : i + n]\<close> for \<open>i\<close> in \<open>range(0, total, n)\<close>; the same reading pattern
  as \<open>f.read(n)\<close> until the empty block.\<close>

function chunks :: "nat \<Rightarrow> 'a list \<Rightarrow> 'a list list" where
  "chunks n xs = (if n = 0 \<or> xs = [] then [] else take n xs # chunks n (drop n xs))"
  by pat_completeness auto
termination
  by (relation "measure (\<lambda>(n, xs). length xs)") auto

declare chunks.simps [simp del]

definition BATCH_SIZE :: nat where
  "BATCH_SIZE = 8"

definition run_ai_processing_task :: "ai_env \<Rightarrow> store \<Rightarrow> store" where
  "run_ai_processing_task env st =
     (let worklist = [(image_id img, path img). img \<leftarrow> images st, is_processed img = False]
      in if worklist = [] then st
         else foldl (process_batch env) st (chunks BATCH_SIZE worklist))"

section \<open>Schema declarations and inserts (backend/database.py)\<close>

text \<open>
  The \<open>Field(...)\<close> arguments of each table, transcribed column by column. The columns
  marked \<open>primary_key\<close> form one uniqueness constraint together; a column marked
  \<open>unique\<close> forms one alone; \<open>index\<close> declares a plain, non-unique index.
\<close>

record field =
  field_name :: string
  primary_key :: bool
  unique :: bool
  index :: bool
  foreign_key :: "string option"

definition Field :: "string \<Rightarrow> field" where
  "Field n = \<lparr>field_name = n, primary_key = False, unique = False, index = False,
              foreign_key = None\<rparr>"

definition ImageTagLink_table :: "field list" where
  "ImageTagLink_table =
     [(Field ''image_id'')\<lparr>foreign_key := Some ''image.id'', primary_key := True\<rparr>,
      (Field ''tag_id'')\<lparr>foreign_key := Some ''tag.id'', primary_key := True\<rparr>,
      Field ''confidence'', Field ''source'', Field ''is_verified'']"

definition Album_table :: "field list" where
  "Album_table =
     [(Field ''id'')\<lparr>primary_key := True\<rparr>, Field ''name'',
      (Field ''slug'')\<lparr>index := True, unique := True\<rparr>,
      Field ''root_path'', Field ''created_at'', Field ''is_deleted'',
      (Field ''owner_id'')\<lparr>foreign_key := Some ''user.id''\<rparr>]"

definition Tag_table :: "field list" where
  "Tag_table =
     [(Field ''id'')\<lparr>primary_key := True\<rparr>,
      (Field ''name'')\<lparr>index := True, unique := True\<rparr>, Field ''category'']"

definition Image_table :: "field list" where
  "Image_table =
     [(Field ''id'')\<lparr>primary_key := True\<rparr>,
      (Field ''album_id'')\<lparr>foreign_key := Some ''album.id''\<rparr>,
      (Field ''owner_id'')\<lparr>foreign_key := Some ''user.id''\<rparr>,
      Field ''filename'', Field ''path'',
      (Field ''file_hash'')\<lparr>index := True\<rparr>,
      Field ''captured_at'', Field ''width'', Field ''height'', Field ''file_size'',
      Field ''camera_model'', Field ''is_processed'', Field ''is_deleted'',
      Field ''created_at'']"

definition unique_constraints :: "field list \<Rightarrow> string list list" where
  "unique_constraints table =
     (let pk = [field_name f. f \<leftarrow> table, primary_key f]
      in (if pk = [] then [] else [pk]) @ [[field_name f]. f \<leftarrow> table, unique f])"

definition declares_unique :: "field list \<Rightarrow> string list \<Rightarrow> bool" where
  "declares_unique table cols \<longleftrightarrow> cols \<in> set (unique_constraints table)"

text \<open>
  An insert is rejected by the store exactly when a declared uniqueness constraint
  would be violated. The integer key is assigned by the store and is fresh.
\<close>

definition insert_image :: "store \<Rightarrow> Image \<Rightarrow> exn + store \<times> Image" where
  "insert_image st img =
     (if declares_unique Image_table [''file_hash'']
         \<and> list_ex (\<lambda>i. file_hash i = file_hash img) (images st)
      then Inl IntegrityError
      else (let row = img\<lparr>image_id := next_id (map image_id (images st))\<rparr>
            in Inr (st\<lparr>images := images st @ [row]\<rparr>, row)))"

definition insert_album :: "store \<Rightarrow> Album \<Rightarrow> exn + store \<times> Album" where
  "insert_album st album =
     (if declares_unique Album_table [''slug'']
         \<and> list_ex (\<lambda>a. slug a = slug album) (albums st)
      then Inl IntegrityError
      else (let row = album\<lparr>album_id := next_id (map album_id (albums st))\<rparr>
            in Inr (st\<lparr>albums := albums st @ [row]\<rparr>, row)))"

definition insert_link :: "store \<Rightarrow> ImageTagLink \<Rightarrow> exn + store" where
  "insert_link st link =
     (if declares_unique ImageTagLink_table [''image_id'', ''tag_id'']
         \<and> list_ex (has_key (link_image_id link) (link_tag_id link)) (links st)
      then Inl IntegrityError
      else Inr (st\<lparr>links := links st @ [link]\<rparr>))"

section \<open>Ingestion (backend/services/ingest.py, backend/services/image_processor.py)\<close>

text \<open>
  The file system, the hash function, Pillow and \<open>slugify\<close> are parameters. The scanner
  result \<open>list_image_files\<close> is the list of paths found after the ZIP pre-pass, which
  catches its own exceptions. \<open>concurrent\<close> stands for the commits of other sessions that
  land between the album lookup for a file and the commit of the album created for it;
  a run with no other writer has \<open>concurrent = (\<lambda>_ st. st)\<close>.
  \<open>generate_thumbnail\<close> catches every exception, its result is ignored and it writes
  only under the thumbnail directory, so it does not appear in the model.
\<close>

record pil_image =
  pil_size :: "int \<times> int"
  getexif :: "(string \<times> string) list option option"

record ingest_env =
  list_image_files :: "string \<Rightarrow> string list"
  read_bytes :: "string \<Rightarrow> string option"
  sha256_hexdigest :: "string \<Rightarrow> string"
  getsize :: "string \<Rightarrow> int option"
  pil_open :: "string \<Rightarrow> pil_image option"
  strptime :: "string \<Rightarrow> datetime option"
  slugify :: "string \<Rightarrow> string"
  concurrent :: "string \<Rightarrow> store \<Rightarrow> store"

text \<open>\<open>calculate_file_hash\<close>: the digest of the blocks read 4096 bytes at a time, each fed
  to \<open>update\<close>; feeding blocks one after another hashes their concatenation.\<close>

definition calculate_file_hash :: "ingest_env \<Rightarrow> string \<Rightarrow> exn + string" where
  "calculate_file_hash env file_path =
     (case read_bytes env file_path of
        None \<Rightarrow> Inl OSError
      | Some bytes \<Rightarrow> Inr (sha256_hexdigest env (concat (chunks 4096 bytes))))"

record metadata =
  md_width :: int
  md_height :: int
  md_captured_at :: "datetime option"
  md_camera_model :: string
  md_file_size :: int

text \<open>\<open>extract_metadata\<close>: \<open>os.path.getsize\<close> is outside the \<open>try\<close>; everything after
  it is inside, and what was assigned before an exception stays.\<close>

definition extract_metadata :: "ingest_env \<Rightarrow> string \<Rightarrow> exn + metadata" where
  "extract_metadata env file_path =
     (case getsize env file_path of
        None \<Rightarrow> Inl OSError
      | Some n \<Rightarrow>
          (let m = \<lparr>md_width = 0, md_height = 0, md_captured_at = None,
                    md_camera_model = ''Unknown'', md_file_size = n\<rparr>
           in case pil_open env file_path of
                None \<Rightarrow> Inr m
              | Some img \<Rightarrow>
                  (let m1 = m\<lparr>md_width := fst (pil_size img), md_height := snd (pil_size img)\<rparr>
                   in case getexif img of
                        None \<Rightarrow> Inr m1
                      | Some None \<Rightarrow> Inr m1
                      | Some (Some exif_data) \<Rightarrow>
                          if exif_data = [] then Inr m1
                          else
                            (let m2 = m1\<lparr>md_camera_model :=
                                         (case map_of exif_data ''Model'' of
                                            None \<Rightarrow> ''Unknown'' | Some v \<Rightarrow> v)\<rparr>;
                                 date_str =
                                   (case map_of exif_data ''DateTimeOriginal'' of
                                      None \<Rightarrow> map_of exif_data ''DateTime''
                                    | Some d \<Rightarrow> if d = [] then map_of exif_data ''DateTime''
                                                else Some d)
                             in case date_str of
                                  None \<Rightarrow> Inr m2
                                | Some d \<Rightarrow>
                                    if d = [] then Inr m2
                                    else Inr (m2\<lparr>md_captured_at := strptime env d\<rparr>)))))"

text \<open>\<open>os.path.basename\<close> and \<open>os.path.dirname\<close> (posixpath).\<close>

definition basename :: "string \<Rightarrow> string" where
  "basename p = rev (takeWhile (\<lambda>c. c \<noteq> CHR ''/'') (rev p))"

definition dirname :: "string \<Rightarrow> string" where
  "dirname p =
     (let head = rev (dropWhile (\<lambda>c. c \<noteq> CHR ''/'') (rev p))
      in if head \<noteq> [] \<and> \<not> list_all (\<lambda>c. c = CHR ''/'') head
         then rev (dropWhile (\<lambda>c. c = CHR ''/'') (rev head))
         else head)"

text \<open>Album management (step 4 of the loop body): look the slug up, else create and commit.\<close>

definition resolve_album ::
    "ingest_env \<Rightarrow> int \<Rightarrow> store \<Rightarrow> string \<Rightarrow> (exn + Album) \<times> store" where
  "resolve_album env owner_id st file_path =
     (let parent_dir = dirname file_path;
          album_name' = basename parent_dir;
          album_slug = slugify env album_name'
      in case find (\<lambda>a. slug a = album_slug) (albums st) of
           Some album \<Rightarrow> (Inr album, st)
         | None \<Rightarrow>
             (let st1 = concurrent env file_path st;
                  album = \<lparr>album_id = 0, album_name = album_name', slug = album_slug,
                           root_path = parent_dir, album_is_deleted = False,
                           album_owner_id = Some owner_id\<rparr>
              in case insert_album st1 album of
                   Inl e \<Rightarrow> (Inl e, st1)
                 | Inr (st2, row) \<Rightarrow> (Inr row, st2)))"

datatype outcome = Added | Skipped | Failed exn

text \<open>The body of the \<open>for file_path in image_paths\<close> loop: what happened to the file,
  and the store afterwards. \<open>Failed\<close> is the \<open>except Exception\<close> branch.\<close>

definition ingest_file :: "ingest_env \<Rightarrow> int \<Rightarrow> store \<Rightarrow> string \<Rightarrow> outcome \<times> store" where
  "ingest_file env owner_id st file_path =
     (case calculate_file_hash env file_path of
        Inl e \<Rightarrow> (Failed e, st)
      | Inr file_hash' \<Rightarrow>
          (case find (\<lambda>i. file_hash i = file_hash') (images st) of
             Some existing_image \<Rightarrow> (Skipped, st)
           | None \<Rightarrow>
               (case extract_metadata env file_path of
                  Inl e \<Rightarrow> (Failed e, st)
                | Inr md \<Rightarrow>
                    (case resolve_album env owner_id st file_path of
                       (Inl e, st1) \<Rightarrow> (Failed e, st1)
                     | (Inr album, st1) \<Rightarrow>
                         (let new_image =
                                \<lparr>image_id = 0, album_ref = album_id album,
                                 image_owner_id = Some owner_id,
                                 filename = basename file_path, path = file_path,
                                 file_hash = file_hash',
                                 captured_at = md_captured_at md,
                                 width = Some (md_width md), height = Some (md_height md),
                                 file_size = Some (md_file_size md),
                                 camera_model = Some (md_camera_model md),
                                 is_processed = False, is_deleted = False\<rparr>
                          in case insert_image st1 new_image of
                               Inl e \<Rightarrow> (Failed e, st1)
                             | Inr (st2, row) \<Rightarrow> (Added, st2))))))"

record stats =
  added :: int
  skipped :: int
  errors :: int

definition tally :: "outcome \<Rightarrow> stats \<Rightarrow> stats" where
  "tally out s = (case out of
       Added \<Rightarrow> s\<lparr>added := added s + 1\<rparr>
     | Skipped \<Rightarrow> s\<lparr>skipped := skipped s + 1\<rparr>
     | Failed e \<Rightarrow> s\<lparr>errors := errors s + 1\<rparr>)"

fun import_loop ::
    "ingest_env \<Rightarrow> int \<Rightarrow> string list \<Rightarrow> stats \<times> store \<Rightarrow> stats \<times> store" where
  "import_loop env owner_id [] acc = acc"
| "import_loop env owner_id (file_path # rest) (s, st) =
     (case ingest_file env owner_id st file_path of
        (out, st') \<Rightarrow> import_loop env owner_id rest (tally out s, st'))"

definition process_import :: "ingest_env \<Rightarrow> string \<Rightarrow> store \<Rightarrow> int \<Rightarrow> stats \<times> store" where
  "process_import env root_path' session owner_id =
     import_loop env owner_id (list_image_files env root_path')
       (\<lparr>added = 0, skipped = 0, errors = 0\<rparr>, session)"

section \<open>The fragment classification in the specification's words\<close>

text \<open>
  A second definition, written from the specification and not from the loop: what counts
  as a number fragment and as a text fragment, and the candidate each one yields. It is
  compared with \<open>analyze_image_text\<close> below.
\<close>

definition spec_number_fragment :: "string \<Rightarrow> bool" where
  "spec_number_fragment clean_text \<longleftrightarrow>
     isdigit clean_text
     \<and> (case py_int clean_text of Inl e \<Rightarrow> False | Inr n \<Rightarrow> 1 \<le> n \<and> n \<le> 999)"

definition spec_text_fragment :: "string \<Rightarrow> bool" where
  "spec_text_fragment clean_text \<longleftrightarrow> length clean_text > 3 \<and> isupper clean_text"

definition spec_classify :: "string \<Rightarrow> tag_item option" where
  "spec_classify fragment =
     (let clean_text = strip fragment in
      if spec_number_fragment clean_text then
        Some \<lparr>name = clean_text, ti_confidence = 0.90, ti_source = ''ai_ocr'',
              category = Some ''number''\<rparr>
      else if spec_text_fragment clean_text then
        Some \<lparr>name = clean_text, ti_confidence = 0.80, ti_source = ''ai_ocr'',
              category = Some ''text''\<rparr>
      else None)"

section \<open>Notions used to state what the worker writes\<close>

text \<open>
  The primary key of a link; a link built from a candidate of an image; a list of links
  that extends another by links with new, pairwise different keys, each built from one of
  the given candidates; an image marked processed when its identifier is in a set; and
  the candidates of a list of per-image results.
\<close>

definition link_key :: "ImageTagLink \<Rightarrow> int \<times> int" where
  "link_key l = (link_image_id l, link_tag_id l)"

definition from_candidate :: "int \<Rightarrow> tag_item \<Rightarrow> ImageTagLink \<Rightarrow> bool" where
  "from_candidate i c l \<longleftrightarrow>
     link_image_id l = i \<and> confidence l = ti_confidence c \<and> source l = ti_source c
     \<and> is_verified l = False"

definition adds :: "(int \<times> tag_item) set \<Rightarrow> ImageTagLink list \<Rightarrow> ImageTagLink list \<Rightarrow> bool" where
  "adds S old new \<longleftrightarrow>
     (\<exists>added. new = old @ added
        \<and> distinct (map link_key added)
        \<and> (\<forall>l \<in> set added. link_key l \<notin> link_key ` set old)
        \<and> (\<forall>l \<in> set added. \<exists>(i, c) \<in> S. from_candidate i c l))"

definition mark_processed :: "int set \<Rightarrow> Image \<Rightarrow> Image" where
  "mark_processed ids img = (if image_id img \<in> ids then img\<lparr>is_processed := True\<rparr> else img)"

definition candidates_of :: "(int \<times> tag_item list) list \<Rightarrow> (int \<times> tag_item) set" where
  "candidates_of rs = {(i, c). \<exists>data. (i, data) \<in> set rs \<and> c \<in> set data}"

text \<open>The candidates the worker can draw on for a worklist: any classifier candidate, and
  the text-recognizer candidates of the paths in the worklist.\<close>

definition worker_candidates :: "ai_env \<Rightarrow> (int \<times> string) list \<Rightarrow> (int \<times> tag_item) set" where
  "worker_candidates env work =
     {(i, c). \<exists>p. (i, p) \<in> set work
                 \<and> (ti_source c = ''ai_clip'' \<or> c \<in> set (analyze_image_text env p))}"

section \<open>Scenarios\<close>


definition photo :: "int \<Rightarrow> string \<Rightarrow> string \<Rightarrow> Image" where
  "photo i p h =
     \<lparr>image_id = i, album_ref = 1, image_owner_id = Some 1, filename = basename p, path = p,
      file_hash = h, captured_at = None, width = Some 0, height = Some 0,
      file_size = Some 3, camera_model = Some ''Unknown'', is_processed = False,
      is_deleted = False\<rparr>"

definition empty_store :: store where
  "empty_store = \<lparr>albums = [], images = [], tags = [], links = []\<rparr>"

definition disk :: ingest_env where
  "disk =
     \<lparr>list_image_files = (\<lambda>root_dir. [''/photos/race/a.jpg'', ''/photos/race/copy.jpg'',
                                   ''/photos/race/broken.jpg'', ''/photos/race/b.jpg'']),
      read_bytes = (\<lambda>p. if p = ''/photos/race/broken.jpg'' then None
                         else if p = ''/photos/race/b.jpg'' then Some ''xyz''
                         else Some ''abc''),
      sha256_hexdigest = (\<lambda>bytes. bytes),
      getsize = (\<lambda>p. Some 3),
      pil_open = (\<lambda>p. None),
      strptime = (\<lambda>d. None),
      slugify = (\<lambda>text. text),
      concurrent = (\<lambda>p st. st)\<rparr>"

definition other_album :: Album where
  "other_album =
     \<lparr>album_id = 1, album_name = ''race'', slug = ''race'', root_path = ''/uploads/race'',
      album_is_deleted = False, album_owner_id = Some 2\<rparr>"

definition racing :: ingest_env where
  "racing =
     disk\<lparr>list_image_files := (\<lambda>root_dir. [''/photos/race/a.jpg'']),
          concurrent := (\<lambda>p st. if list_ex (\<lambda>a. slug a = ''race'') (albums st) then st
                                  else st\<lparr>albums := albums st @ [other_album]\<rparr>)\<rparr>"

definition reader :: ai_env where
  "reader =
     \<lparr>config = \<lparr>clip_labels = [''car''], clip_confidence_threshold = 0.25,
                ocr_enabled = True\<rparr>,
      load_pil_image = (\<lambda>p. True),
      clip_probs = (\<lambda>ps. Some (map (\<lambda>p. if p = ''/p/a.jpg'' then [0.7] else [0.1]) ps)),
      ocr_reader_loads = True,
      readtext = (\<lambda>p. if p = ''/p/a.jpg''
                       then Some [('' 42 '', 0.31), (''ABCD'', 0.99), (''abcd'', 0.95),
                                  (''5000'', 0.97)]
                       else Some [])\<rparr>"

definition tagged_store :: store where
  "tagged_store =
     \<lparr>albums = [],
      images = [photo 1 ''/p/a.jpg'' ''h1'', photo 2 ''/p/b.jpg'' ''h2''],
      tags = [\<lparr>tag_id = 1, tag_name = ''car'', tag_category = ''manual''\<rparr>],
      links = [\<lparr>link_image_id = 1, link_tag_id = 1, confidence = 1, source = ''manual'',
                is_verified = True\<rparr>]\<rparr>"

definition classifier :: ai_env where
  "classifier = reader\<lparr>config := (config reader)\<lparr>ocr_enabled := False\<rparr>\<rparr>"

definition two_images :: store where
  "two_images = empty_store\<lparr>images := [photo 1 ''/p/a.jpg'' ''h1'', photo 2 ''/p/b.jpg'' ''h2'']\<rparr>"

definition deleted_store :: store where
  "deleted_store = empty_store\<lparr>images := [(photo 1 ''/p/a.jpg'' ''h1'')\<lparr>is_deleted := True\<rparr>]\<rparr>"

section \<open>Review decisions\<close>

lemma find_map_update:
  assumes "find P rows = Some r" and "\<And>x. P (f x) = P x"
  shows "find P (map (\<lambda>x. if P x then f x else x) rows) = Some (f r)"
  using assms
  by (induction rows) (auto split: if_splits)

lemma filter_not_map_update:
  assumes "\<And>x. P (f x) = P x"
  shows "filter (\<lambda>x. \<not> P x) (map (\<lambda>x. if P x then f x else x) rows) = filter (\<lambda>x. \<not> P x) rows"
  using assms by (induction rows) auto

lemma has_key_approve [simp]: "has_key i t (approve_link l) = has_key i t l"
  by (simp add: has_key_def approve_link_def)

lemma approve_run:
  assumes "find (has_key i t) (links st) = Some link"
  shows "review_tag i t ''approve'' st
           = Inr (st\<lparr>links := map (\<lambda>l. if has_key i t l then approve_link l else l) (links st)\<rparr>)"
  using assms by (simp add: review_tag_def)

lemma reject_run:
  assumes "find (has_key i t) (links st) = Some link"
  shows "review_tag i t ''reject'' st
           = Inr (st\<lparr>links := filter (\<lambda>l. \<not> has_key i t l) (links st)\<rparr>)"
  using assms by (simp add: review_tag_def)

text \<open>
  Claim C5. For an existing link, \<open>approve\<close> succeeds and leaves the link for that
  (image, tag) pair verified with confidence 1.0, every other link untouched; \<open>reject\<close>
  succeeds and removes the link, so that a later lookup of the pair finds nothing; any
  other action fails with the 400 error and returns no new store; and a request for a
  pair that has no link fails with the 404 error, whatever the action.
\<close>

theorem review_tag_actions:
  "(find (has_key i t) (links st) = Some link \<longrightarrow>
      (\<exists>st'. review_tag i t ''approve'' st = Inr st'
          \<and> find (has_key i t) (links st') = Some (link\<lparr>is_verified := True, confidence := 1\<rparr>)
          \<and> (\<forall>l \<in> set (links st'). has_key i t l \<longrightarrow> is_verified l \<and> confidence l = 1)
          \<and> filter (\<lambda>l. \<not> has_key i t l) (links st') = filter (\<lambda>l. \<not> has_key i t l) (links st)
          \<and> length (links st') = length (links st))
    \<and> (\<exists>st'. review_tag i t ''reject'' st = Inr st'
          \<and> find (has_key i t) (links st') = None
          \<and> links st' = filter (\<lambda>l. \<not> has_key i t l) (links st))
    \<and> (action \<noteq> ''approve'' \<and> action \<noteq> ''reject'' \<longrightarrow>
          review_tag i t action st
            = Inl (HTTPException 400 ''Invalid action. Use 'approve' or 'reject'.'')))
   \<and> (find (has_key i t) (links st) = None \<longrightarrow>
          review_tag i t action st = Inl (HTTPException 404 ''Tag link not found''))"
proof (intro conjI impI)
  assume ex: "find (has_key i t) (links st) = Some link"
  define ls where "ls = map (\<lambda>l. if has_key i t l then approve_link l else l) (links st)"
  have run: "review_tag i t ''approve'' st = Inr (st\<lparr>links := ls\<rparr>)"
    unfolding ls_def by (rule approve_run [OF ex])
  have "find (has_key i t) ls = Some (approve_link link)"
    unfolding ls_def by (rule find_map_update [OF ex]) simp
  then have found: "find (has_key i t) ls = Some (link\<lparr>is_verified := True, confidence := 1\<rparr>)"
    by (simp add: approve_link_def)
  have all: "\<forall>l \<in> set ls. has_key i t l \<longrightarrow> is_verified l \<and> confidence l = 1"
    unfolding ls_def by (auto simp: approve_link_def)
  have others: "filter (\<lambda>l. \<not> has_key i t l) ls = filter (\<lambda>l. \<not> has_key i t l) (links st)"
    unfolding ls_def by (rule filter_not_map_update) simp
  have len: "length ls = length (links st)"
    by (simp add: ls_def)
  show "\<exists>st'. review_tag i t ''approve'' st = Inr st'
          \<and> find (has_key i t) (links st') = Some (link\<lparr>is_verified := True, confidence := 1\<rparr>)
          \<and> (\<forall>l \<in> set (links st'). has_key i t l \<longrightarrow> is_verified l \<and> confidence l = 1)
          \<and> filter (\<lambda>l. \<not> has_key i t l) (links st') = filter (\<lambda>l. \<not> has_key i t l) (links st)
          \<and> length (links st') = length (links st)"
    using run found all others len by (intro exI [of _ "st\<lparr>links := ls\<rparr>"]) simp
  show "\<exists>st'. review_tag i t ''reject'' st = Inr st'
          \<and> find (has_key i t) (links st') = None
          \<and> links st' = filter (\<lambda>l. \<not> has_key i t l) (links st)"
    using reject_run [OF ex] by (simp add: find_None_iff)
  show "review_tag i t action st
          = Inl (HTTPException 400 ''Invalid action. Use 'approve' or 'reject'.'')"
    if "action \<noteq> ''approve'' \<and> action \<noteq> ''reject''"
    using ex that by (simp add: review_tag_def)
next
  assume "find (has_key i t) (links st) = None"
  then show "review_tag i t action st = Inl (HTTPException 404 ''Tag link not found'')"
    by (simp add: review_tag_def)
qed

theorem review_tag_actions_witness:
  "find (has_key 1 2)
     [\<lparr>link_image_id = 1, link_tag_id = 2, confidence = 0.6, source = ''ai_clip'',
       is_verified = False\<rparr>]
     = Some \<lparr>link_image_id = 1, link_tag_id = 2, confidence = 0.6, source = ''ai_clip'',
             is_verified = False\<rparr>
   \<and> review_tag 1 2 ''approve''
        \<lparr>albums = [], images = [], tags = [],
         links = [\<lparr>link_image_id = 1, link_tag_id = 2, confidence = 0.6, source = ''ai_clip'',
                   is_verified = False\<rparr>]\<rparr>
      = Inr \<lparr>albums = [], images = [], tags = [],
             links = [\<lparr>link_image_id = 1, link_tag_id = 2, confidence = 1, source = ''ai_clip'',
                       is_verified = True\<rparr>]\<rparr>
   \<and> review_tag 1 2 ''reject''
        \<lparr>albums = [], images = [], tags = [],
         links = [\<lparr>link_image_id = 1, link_tag_id = 2, confidence = 0.6, source = ''ai_clip'',
                   is_verified = False\<rparr>]\<rparr>
      = Inr \<lparr>albums = [], images = [], tags = [], links = []\<rparr>
   \<and> review_tag 1 2 ''remove''
        \<lparr>albums = [], images = [], tags = [],
         links = [\<lparr>link_image_id = 1, link_tag_id = 2, confidence = 0.6, source = ''ai_clip'',
                   is_verified = False\<rparr>]\<rparr>
      = Inl (HTTPException 400 ''Invalid action. Use 'approve' or 'reject'.'')
   \<and> review_tag 7 7 ''approve'' \<lparr>albums = [], images = [], tags = [], links = []\<rparr>
      = Inl (HTTPException 404 ''Tag link not found'')"
  using review_tag_actions
      [of 1 2 "\<lparr>albums = [], images = [], tags = [],
                links = [\<lparr>link_image_id = 1, link_tag_id = 2, confidence = 0.6,
                          source = ''ai_clip'', is_verified = False\<rparr>]\<rparr>"
          "\<lparr>link_image_id = 1, link_tag_id = 2, confidence = 0.6, source = ''ai_clip'',
            is_verified = False\<rparr>" "''remove''"]
    review_tag_actions
      [of 7 7 "\<lparr>albums = [], images = [], tags = [], links = []\<rparr>"
          "\<lparr>link_image_id = 1, link_tag_id = 2, confidence = 0.6, source = ''ai_clip'',
            is_verified = False\<rparr>" "''approve''"]
  by (simp add: has_key_def review_tag_def approve_link_def)

section \<open>Review-queue selection\<close>

lemma review_rows_iff:
  "(link, img, tag) \<in> set (review_rows st) \<longleftrightarrow>
     link \<in> set (links st) \<and> img \<in> set (images st) \<and> tag \<in> set (tags st)
     \<and> link_image_id link = image_id img \<and> link_tag_id link = tag_id tag
     \<and> is_verified link = False \<and> 0.30 < confidence link \<and> confidence link < 0.90
     \<and> is_deleted img = False"
  by (auto simp: review_rows_def review_where_def)






section \<open>Uniqueness constraints of the schema\<close>


lemma unique_Image_table: "unique_constraints Image_table = [[''id'']]"
  by (simp add: unique_constraints_def Image_table_def Field_def)

lemma unique_Album_table: "unique_constraints Album_table = [[''id''], [''slug'']]"
  by (simp add: unique_constraints_def Album_table_def Field_def)

lemma unique_ImageTagLink_table:
  "unique_constraints ImageTagLink_table = [[''image_id'', ''tag_id'']]"
  by (simp add: unique_constraints_def ImageTagLink_table_def Field_def)

lemma insert_image_accepts:
  "insert_image st img =
     Inr (st\<lparr>images := images st @ [img\<lparr>image_id := next_id (map image_id (images st))\<rparr>]\<rparr>,
          img\<lparr>image_id := next_id (map image_id (images st))\<rparr>)"
  by (simp add: insert_image_def declares_unique_def unique_Image_table Let_def)

text \<open>
  Claim C8, as stated, fails: \<open>Image.file_hash\<close> is declared \<open>Field(index=True)\<close>, an
  index without \<open>unique\<close>. The store accepts a second Image row with a fingerprint that
  is already present.
\<close>

theorem fingerprint_not_unique_counterexample:
  "\<not> declares_unique Image_table [''file_hash'']
   \<and> insert_image (empty_store\<lparr>images := [photo 1 ''/p/a.jpg'' ''h'']\<rparr>) (photo 0 ''/p/b.jpg'' ''h'')
       = Inr (empty_store\<lparr>images := [photo 1 ''/p/a.jpg'' ''h'', photo 2 ''/p/b.jpg'' ''h'']\<rparr>,
              photo 2 ''/p/b.jpg'' ''h'')"
  by (simp add: insert_image_accepts declares_unique_def unique_Image_table empty_store_def
        photo_def next_id_def)

text \<open>
  Claim C8, amended. The schema declares uniqueness on the Album's slug and, through the
  composite primary key, on the (image, tag) pair of a TagLink; creating a duplicate of
  either is rejected by the store. On the Image table the only uniqueness constraint is
  the primary key: the fingerprint column is indexed but not unique, and the store
  accepts every Image insert, appending a row that carries the given fingerprint.
\<close>

theorem schema_uniqueness:
  "declares_unique Album_table [''slug'']
   \<and> declares_unique ImageTagLink_table [''image_id'', ''tag_id'']
   \<and> unique_constraints Image_table = [[''id'']]
   \<and> (list_ex (\<lambda>a. slug a = slug album) (albums st) \<longrightarrow>
        insert_album st album = Inl IntegrityError)
   \<and> (list_ex (has_key (link_image_id link) (link_tag_id link)) (links st) \<longrightarrow>
        insert_link st link = Inl IntegrityError)
   \<and> (\<exists>st' row. insert_image st img = Inr (st', row)
         \<and> images st' = images st @ [row] \<and> file_hash row = file_hash img)"
  by (simp add: declares_unique_def unique_Image_table unique_Album_table
        unique_ImageTagLink_table insert_album_def insert_link_def insert_image_accepts Let_def)

theorem schema_uniqueness_witness:
  "insert_album
     (empty_store\<lparr>albums := [\<lparr>album_id = 1, album_name = ''Race'', slug = ''race'',
                               root_path = ''/p/Race'', album_is_deleted = False,
                               album_owner_id = Some 1\<rparr>]\<rparr>)
     \<lparr>album_id = 0, album_name = ''race'', slug = ''race'', root_path = ''/q/race'',
      album_is_deleted = False, album_owner_id = Some 2\<rparr>
     = Inl IntegrityError
   \<and> insert_link
        (empty_store\<lparr>links := [\<lparr>link_image_id = 1, link_tag_id = 2, confidence = 0.5,
                                 source = ''ai_clip'', is_verified = False\<rparr>]\<rparr>)
        \<lparr>link_image_id = 1, link_tag_id = 2, confidence = 1, source = ''manual'',
         is_verified = True\<rparr>
     = Inl IntegrityError"
  using schema_uniqueness
      [of "\<lparr>album_id = 0, album_name = ''race'', slug = ''race'', root_path = ''/q/race'',
            album_is_deleted = False, album_owner_id = Some 2\<rparr>"
          "empty_store\<lparr>albums := [\<lparr>album_id = 1, album_name = ''Race'', slug = ''race'',
                               root_path = ''/p/Race'', album_is_deleted = False,
                               album_owner_id = Some 1\<rparr>]\<rparr>"
          "\<lparr>link_image_id = 1, link_tag_id = 2, confidence = 1, source = ''manual'',
            is_verified = True\<rparr>"]
    schema_uniqueness
      [of _ "empty_store\<lparr>links := [\<lparr>link_image_id = 1, link_tag_id = 2, confidence = 0.5,
                                 source = ''ai_clip'', is_verified = False\<rparr>]\<rparr>"
          "\<lparr>link_image_id = 1, link_tag_id = 2, confidence = 1, source = ''manual'',
            is_verified = True\<rparr>"]
  by (simp add: empty_store_def has_key_def)

section \<open>Fingerprints\<close>

lemma concat_chunks: "0 < n \<Longrightarrow> concat (chunks n xs) = xs"
proof (induction n xs rule: chunks.induct)
  case (1 n xs)
  show ?case
  proof (cases "xs = []")
    case True
    then show ?thesis by (subst chunks.simps) simp
  next
    case False
    with "1.prems" have "concat (chunks n (drop n xs)) = drop n xs"
      by (intro "1.IH") auto
    with False "1.prems" show ?thesis
      by (subst chunks.simps) simp
  qed
qed

lemma calculate_file_hash_eq:
  "calculate_file_hash env p =
     (case read_bytes env p of None \<Rightarrow> Inl OSError
      | Some content \<Rightarrow> Inr (sha256_hexdigest env content))"
  by (simp add: calculate_file_hash_def concat_chunks split: option.split)

section \<open>Ingestion: counts and failure isolation\<close>








section \<open>Album resolution under a concurrent writer\<close>

lemma insert_album_eq:
  "insert_album st album =
     (if list_ex (\<lambda>a. slug a = slug album) (albums st) then Inl IntegrityError
      else Inr (st\<lparr>albums := albums st @ [album\<lparr>album_id := next_id (map album_id (albums st))\<rparr>]\<rparr>,
                album\<lparr>album_id := next_id (map album_id (albums st))\<rparr>))"
  by (simp add: insert_album_def declares_unique_def unique_Album_table Let_def)

lemma resolve_album_conflict:
  assumes "find (\<lambda>a. slug a = slugify env (basename (dirname p))) (albums st) = None"
    and "list_ex (\<lambda>a. slug a = slugify env (basename (dirname p))) (albums (concurrent env p st))"
  shows "resolve_album env owner_id st p = (Inl IntegrityError, concurrent env p st)"
  using assms by (simp add: resolve_album_def insert_album_eq Let_def)

lemma resolve_album_slugs:
  assumes "distinct (map slug (albums st))"
    and "distinct (map slug (albums st)) \<Longrightarrow> distinct (map slug (albums (concurrent env p st)))"
    and "resolve_album env owner_id st p = (r, st1)"
  shows "distinct (map slug (albums st1))"
proof (cases "find (\<lambda>a. slug a = slugify env (basename (dirname p))) (albums st)")
  case (Some album)
  with assms(1,3) show ?thesis
    by (simp add: resolve_album_def Let_def)
next
  case None
  let ?st1 = "concurrent env p st"
  have d1: "distinct (map slug (albums ?st1))"
    by (rule assms(2) [OF assms(1)])
  show ?thesis
  proof (cases "list_ex (\<lambda>a. slug a = slugify env (basename (dirname p))) (albums ?st1)")
    case True
    with None assms(3) d1 show ?thesis
      by (simp add: resolve_album_def insert_album_eq Let_def)
  next
    case False
    then have "slugify env (basename (dirname p)) \<notin> slug ` set (albums ?st1)"
      by (auto simp: list_ex_iff)
    with None False assms(3) d1 show ?thesis
      by (auto simp: resolve_album_def insert_album_eq Let_def)
  qed
qed

lemma ingest_file_albums:
  "ingest_file env owner_id st p = (out, st') \<Longrightarrow>
   albums st' = albums st \<or> albums st' = albums (snd (resolve_album env owner_id st p))"
  by (auto simp: ingest_file_def insert_image_accepts
           split: sum.splits option.splits prod.splits)

lemma ingest_file_slugs:
  assumes "distinct (map slug (albums st))"
    and "distinct (map slug (albums st)) \<Longrightarrow> distinct (map slug (albums (concurrent env p st)))"
    and "ingest_file env owner_id st p = (out, st')"
  shows "distinct (map slug (albums st'))"
proof -
  obtain r st1 where ra: "resolve_album env owner_id st p = (r, st1)"
    by (cases "resolve_album env owner_id st p")
  have "distinct (map slug (albums st1))"
    by (rule resolve_album_slugs [OF assms(1) assms(2) ra]) (rule assms(1))
  with ingest_file_albums [OF assms(3)] ra assms(1) show ?thesis
    by auto
qed

lemma import_loop_slugs:
  assumes "\<And>p st. distinct (map slug (albums st)) \<Longrightarrow>
                    distinct (map slug (albums (concurrent env p st)))"
  shows "distinct (map slug (albums st)) \<Longrightarrow>
         distinct (map slug (albums (snd (import_loop env owner_id paths (s, st)))))"
proof (induction paths arbitrary: s st)
  case Nil
  then show ?case by simp
next
  case (Cons p ps)
  obtain out st1 where step: "ingest_file env owner_id st p = (out, st1)"
    by (cases "ingest_file env owner_id st p")
  have "distinct (map slug (albums st1))"
    by (rule ingest_file_slugs [OF Cons.prems _ step]) (rule assms)
  from Cons.IH [OF this] step show ?case by simp
qed

text \<open>
  Claim C9, as stated, fails: album resolution has no handler for a failed creation and
  no second lookup. When another session commits an album with the same slug between the
  lookup and the commit, the IntegrityError reaches the handler of the file loop: the
  file is counted as an error and no Image row is written for it.
\<close>

theorem album_race_counterexample:
  "process_import racing ''/photos'' empty_store 1
     = (\<lparr>added = 0, skipped = 0, errors = 1\<rparr>, empty_store\<lparr>albums := [other_album]\<rparr>)"
  by (simp add: racing_def disk_def other_album_def empty_store_def process_import_def
        ingest_file_def calculate_file_hash_eq extract_metadata_def resolve_album_def
        insert_album_eq dirname_def basename_def tally_def Let_def)

text \<open>
  Claim C9, amended. When the album lookup finds nothing and the creation then fails the
  slug uniqueness constraint, the file is not ingested: its outcome is the IntegrityError,
  counted under \<open>errors\<close>, and the store is left as the other session committed it, with
  no new Album and no new Image. No two Albums ever share a slug, by the store's
  constraint alone: if the other sessions keep slugs distinct, so does the whole import.
\<close>

theorem album_conflict_fails_file:
  "(calculate_file_hash env p = Inr h
      \<and> find (\<lambda>i. file_hash i = h) (images st) = None
      \<and> extract_metadata env p = Inr md
      \<and> find (\<lambda>a. slug a = slugify env (basename (dirname p))) (albums st) = None
      \<and> list_ex (\<lambda>a. slug a = slugify env (basename (dirname p)))
                 (albums (concurrent env p st))
      \<longrightarrow> ingest_file env owner_id st p = (Failed IntegrityError, concurrent env p st)
          \<and> import_loop env owner_id [p] (s, st)
              = (s\<lparr>errors := errors s + 1\<rparr>, concurrent env p st))
   \<and> (distinct (map slug (albums st))
      \<and> (\<forall>q st'. distinct (map slug (albums st')) \<longrightarrow>
                   distinct (map slug (albums (concurrent env q st'))))
      \<longrightarrow> distinct (map slug (albums (snd (process_import env root_dir st owner_id)))))"
proof (intro conjI impI)
  assume h: "calculate_file_hash env p = Inr h
      \<and> find (\<lambda>i. file_hash i = h) (images st) = None
      \<and> extract_metadata env p = Inr md
      \<and> find (\<lambda>a. slug a = slugify env (basename (dirname p))) (albums st) = None
      \<and> list_ex (\<lambda>a. slug a = slugify env (basename (dirname p)))
                 (albums (concurrent env p st))"
  then have "resolve_album env owner_id st p = (Inl IntegrityError, concurrent env p st)"
    by (simp add: resolve_album_conflict)
  with h show step: "ingest_file env owner_id st p = (Failed IntegrityError, concurrent env p st)"
    by (simp add: ingest_file_def)
  then show "import_loop env owner_id [p] (s, st)
              = (s\<lparr>errors := errors s + 1\<rparr>, concurrent env p st)"
    by (simp add: tally_def)
next
  assume "distinct (map slug (albums st))
      \<and> (\<forall>q st'. distinct (map slug (albums st')) \<longrightarrow>
                   distinct (map slug (albums (concurrent env q st'))))"
  then show "distinct (map slug (albums (snd (process_import env root_dir st owner_id))))"
    unfolding process_import_def by (intro import_loop_slugs) auto
qed

theorem album_conflict_fails_file_witness:
  "ingest_file racing 1 empty_store ''/photos/race/a.jpg''
     = (Failed IntegrityError, empty_store\<lparr>albums := [other_album]\<rparr>)
   \<and> distinct (map slug (albums (snd (process_import racing ''/photos'' empty_store 1))))"
proof -
  have keep: "\<forall>q st'. distinct (map slug (albums st')) \<longrightarrow>
                distinct (map slug (albums (concurrent racing q st')))"
    by (auto simp: racing_def other_album_def list_ex_iff)
  have pre: "calculate_file_hash racing ''/photos/race/a.jpg'' = Inr ''abc''
      \<and> find (\<lambda>i. file_hash i = ''abc'') (images empty_store) = None
      \<and> extract_metadata racing ''/photos/race/a.jpg''
          = Inr \<lparr>md_width = 0, md_height = 0, md_captured_at = None,
                 md_camera_model = ''Unknown'', md_file_size = 3\<rparr>
      \<and> find (\<lambda>a. slug a = slugify racing (basename (dirname ''/photos/race/a.jpg'')))
            (albums empty_store) = None
      \<and> list_ex (\<lambda>a. slug a = slugify racing (basename (dirname ''/photos/race/a.jpg'')))
            (albums (concurrent racing ''/photos/race/a.jpg'' empty_store))"
    by (simp add: racing_def disk_def other_album_def empty_store_def calculate_file_hash_eq
          extract_metadata_def dirname_def basename_def)
  have "concurrent racing ''/photos/race/a.jpg'' empty_store
          = empty_store\<lparr>albums := [other_album]\<rparr>"
    by (simp add: racing_def empty_store_def)
  then show ?thesis
    using album_conflict_fails_file
        [of racing "''/photos/race/a.jpg''" "''abc''" empty_store
            "\<lparr>md_width = 0, md_height = 0, md_captured_at = None,
              md_camera_model = ''Unknown'', md_file_size = 3\<rparr>" 1 _ "''/photos''"]
      pre keep
    by (simp add: empty_store_def)
qed

section \<open>Deduplication by content fingerprint\<close>

lemma found_iff: "find P rows \<noteq> None \<longleftrightarrow> list_ex P rows"
  by (auto simp: find_None_iff list_ex_iff)












section \<open>Classification of recognized text\<close>

lemma number_test_total: "number_test clean_text = Inr (spec_number_fragment clean_text)"
  by (simp add: number_test_def spec_number_fragment_def py_int_def isdigit_def)

lemma ocr_loop_map_filter:
  "ocr_loop texts results = results @ List.map_filter spec_classify texts"
proof (induction texts arbitrary: results)
  case Nil
  show ?case by simp
next
  case (Cons t texts)
  show ?case
    by (simp add: Cons.IH number_test_total spec_classify_def spec_text_fragment_def
          number_item_def text_item_def Let_def)
qed

lemma in_map_filter:
  "c \<in> set (List.map_filter f xs) \<longleftrightarrow> (\<exists>x \<in> set xs. f x = Some c)"
  by (induction xs) (auto split: option.splits)

lemma spec_classify_shape:
  assumes "spec_classify fragment = Some c"
  shows "name c = strip fragment \<and> ti_source c = ''ai_ocr''
     \<and> (category c = Some ''number'' \<and> ti_confidence c = 0.90 \<and> spec_number_fragment (name c)
        \<or> category c = Some ''text'' \<and> ti_confidence c = 0.80 \<and> spec_text_fragment (name c)
          \<and> \<not> spec_number_fragment (name c))"
  using assms by (auto simp: spec_classify_def Let_def split: if_splits)

lemma analyze_image_text_eq:
  "analyze_image_text env image_path =
     (if ocr_enabled (config env) \<and> ocr_reader_loads env then
        (case readtext env image_path of
           None \<Rightarrow> []
         | Some fragments \<Rightarrow> List.map_filter spec_classify (map fst fragments))
      else [])"
  by (simp add: analyze_image_text_def ocr_loop_map_filter split: option.split)

lemma analyze_image_text_shape:
  assumes "c \<in> set (analyze_image_text env image_path)"
  shows "ti_source c = ''ai_ocr''
     \<and> (category c = Some ''number'' \<and> ti_confidence c = 0.90 \<and> spec_number_fragment (name c)
        \<or> category c = Some ''text'' \<and> ti_confidence c = 0.80 \<and> spec_text_fragment (name c)
          \<and> \<not> spec_number_fragment (name c))"
proof -
  have "\<exists>fragment. spec_classify fragment = Some c"
  proof (cases "ocr_enabled (config env) \<and> ocr_reader_loads env")
    case False
    then have "analyze_image_text env image_path = []"
      by (auto simp: analyze_image_text_eq)
    with assms show ?thesis by simp
  next
    case True
    show ?thesis
    proof (cases "readtext env image_path")
      case None
      with True have "analyze_image_text env image_path = []"
        by (simp add: analyze_image_text_eq)
      with assms show ?thesis by simp
    next
      case (Some fragments)
      with True have "analyze_image_text env image_path
                        = List.map_filter spec_classify (map fst fragments)"
        by (simp add: analyze_image_text_eq)
      with assms have "c \<in> set (List.map_filter spec_classify (map fst fragments))"
        by simp
      then show ?thesis
        unfolding in_map_filter by blast
    qed
  qed
  then obtain fragment where "spec_classify fragment = Some c" ..
  from spec_classify_shape [OF this] show ?thesis by blast
qed



section \<open>The persist phase only appends links with fresh keys\<close>

lemma has_key_link_key: "has_key i t l \<longleftrightarrow> link_key l = (i, t)"
  by (auto simp: has_key_def link_key_def)

lemma adds_refl: "adds S old old"
  by (simp add: adds_def)

lemma adds_mono: "adds S old new \<Longrightarrow> S \<subseteq> T \<Longrightarrow> adds T old new"
  unfolding adds_def by (elim exE conjE, rule exI, intro conjI; blast)

lemma adds_trans:
  assumes "adds S a b" and "adds T b c"
  shows "adds (S \<union> T) a c"
proof -
  from assms(1) obtain x where x: "b = a @ x" "distinct (map link_key x)"
      "\<forall>l \<in> set x. link_key l \<notin> link_key ` set a"
      "\<forall>l \<in> set x. \<exists>(i, c) \<in> S. from_candidate i c l"
    unfolding adds_def by blast
  from assms(2) obtain y where y: "c = b @ y" "distinct (map link_key y)"
      "\<forall>l \<in> set y. link_key l \<notin> link_key ` set b"
      "\<forall>l \<in> set y. \<exists>(i, c) \<in> T. from_candidate i c l"
    unfolding adds_def by blast
  have 1: "c = a @ (x @ y)" using x(1) y(1) by simp
  have 2: "distinct (map link_key (x @ y))"
    using x(1,2) y(2,3) by auto
  have 3: "\<forall>l \<in> set (x @ y). link_key l \<notin> link_key ` set a"
    using x(1,3) y(3) by auto
  have 4: "\<forall>l \<in> set (x @ y). \<exists>(i, c) \<in> S \<union> T. from_candidate i c l"
    using x(4) y(4) by fastforce
  show ?thesis
    unfolding adds_def using 1 2 3 4 by blast
qed

lemma adds_single:
  assumes "\<not> list_ex (has_key i t) old"
  shows "adds {(i, c)} old (old @ [new_link i t c])"
proof -
  have "link_key (new_link i t c) \<notin> link_key ` set old"
    using assms by (auto simp: list_ex_iff has_key_link_key new_link_def link_key_def)
  moreover have "from_candidate i c (new_link i t c)"
    by (simp add: from_candidate_def new_link_def)
  ultimately show ?thesis
    unfolding adds_def by (intro exI [of _ "[new_link i t c]"]) simp
qed

lemma find_or_create_tag_keeps:
  "links (fst (find_or_create_tag st n cat)) = links st
   \<and> images (fst (find_or_create_tag st n cat)) = images st
   \<and> albums (fst (find_or_create_tag st n cat)) = albums st"
  by (simp add: find_or_create_tag_def Let_def split: option.split)

lemma save_tag_item_images: "images (save_tag_item i st c) = images st"
proof -
  obtain st1 tag where f: "find_or_create_tag st (name c)
      (case category c of None \<Rightarrow> ''general'' | Some x \<Rightarrow> x) = (st1, tag)"
    by (cases "find_or_create_tag st (name c) (case category c of None \<Rightarrow> ''general'' | Some x \<Rightarrow> x)")
  with find_or_create_tag_keeps [of st "name c" "case category c of None \<Rightarrow> ''general'' | Some x \<Rightarrow> x"]
  show ?thesis
    by (simp add: save_tag_item_def split: option.split)
qed

lemma save_tag_item_adds: "adds {(i, c)} (links st) (links (save_tag_item i st c))"
proof -
  obtain st1 tag where f: "find_or_create_tag st (name c)
      (case category c of None \<Rightarrow> ''general'' | Some x \<Rightarrow> x) = (st1, tag)"
    by (cases "find_or_create_tag st (name c) (case category c of None \<Rightarrow> ''general'' | Some x \<Rightarrow> x)")
  with find_or_create_tag_keeps [of st "name c" "case category c of None \<Rightarrow> ''general'' | Some x \<Rightarrow> x"]
  have same: "links st1 = links st" by simp
  show ?thesis
  proof (cases "find (has_key i (tag_id tag)) (links st1)")
    case None
    then have "\<not> list_ex (has_key i (tag_id tag)) (links st)"
      using same by (simp add: find_None_iff list_ex_iff)
    from adds_single [OF this, of c] f None same show ?thesis
      by (simp add: save_tag_item_def)
  next
    case (Some existing)
    with f same show ?thesis
      by (simp add: save_tag_item_def adds_refl)
  qed
qed

lemma foldl_save_tag_item_adds:
  "adds ({i} \<times> set data) (links st) (links (foldl (save_tag_item i) st data))"
proof (induction data arbitrary: st)
  case Nil
  show ?case by (simp add: adds_refl)
next
  case (Cons c data)
  have "adds ({(i, c)} \<union> {i} \<times> set data) (links st)
          (links (foldl (save_tag_item i) (save_tag_item i st c) data))"
    by (rule adds_trans [OF save_tag_item_adds Cons.IH])
  then have "adds ({i} \<times> set (c # data)) (links st)
          (links (foldl (save_tag_item i) (save_tag_item i st c) data))"
    by (rule adds_mono) auto
  then show ?case by simp
qed

lemma foldl_save_tag_item_images: "images (foldl (save_tag_item i) st data) = images st"
  by (induction data arbitrary: st) (simp_all add: save_tag_item_images)

lemma set_processed_links [simp]: "links (set_processed i st) = links st"
  by (simp add: set_processed_def)

lemma save_image_result_adds:
  "adds ({i} \<times> set data) (links st) (links (save_image_result st (i, data)))"
  by (simp add: save_image_result_def adds_refl foldl_save_tag_item_adds)

lemma save_image_result_images:
  "images (save_image_result st (i, data)) = map (mark_processed {i}) (images st)"
proof (cases "find (\<lambda>img. image_id img = i) (images st)")
  case None
  then have "\<forall>img \<in> set (images st). image_id img \<noteq> i"
    by (simp add: find_None_iff)
  then have "map (mark_processed {i}) (images st) = images st"
    by (intro map_idI) (simp add: mark_processed_def)
  with None show ?thesis
    by (simp add: save_image_result_def)
next
  case (Some img)
  have "(\<lambda>img. if image_id img = i then img\<lparr>is_processed := True\<rparr> else img) = mark_processed {i}"
    by (rule ext) (simp add: mark_processed_def)
  with Some show ?thesis
    by (simp add: save_image_result_def set_processed_def foldl_save_tag_item_images)
qed

lemma mark_processed_twice:
  "mark_processed B (mark_processed {i} img) = mark_processed (insert i B) img"
  by (simp add: mark_processed_def)

lemma candidates_of_Cons:
  "candidates_of ((i, data) # rs) = {i} \<times> set data \<union> candidates_of rs"
  by (auto simp: candidates_of_def)

lemma foldl_save_image_result_adds:
  "adds (candidates_of rs) (links st) (links (foldl save_image_result st rs))"
proof (induction rs arbitrary: st)
  case Nil
  show ?case by (simp add: adds_refl)
next
  case (Cons r rs)
  obtain i data where r: "r = (i, data)" by (cases r)
  have "adds ({i} \<times> set data \<union> candidates_of rs) (links st)
          (links (foldl save_image_result (save_image_result st (i, data)) rs))"
    by (rule adds_trans [OF save_image_result_adds Cons.IH])
  then show ?case
    by (simp add: r candidates_of_Cons)
qed

lemma foldl_save_image_result_images:
  "images (foldl save_image_result st rs) = map (mark_processed (fst ` set rs)) (images st)"
proof (induction rs arbitrary: st)
  case Nil
  have "map (mark_processed {}) (images st) = images st"
    by (intro map_idI) (simp add: mark_processed_def)
  then show ?case by simp
next
  case (Cons r rs)
  obtain i data where r: "r = (i, data)" by (cases r)
  have "images (foldl save_image_result (save_image_result st (i, data)) rs)
          = map (mark_processed (fst ` set rs)) (map (mark_processed {i}) (images st))"
    by (simp add: Cons.IH save_image_result_images)
  then show ?case
    by (simp add: r mark_processed_twice)
qed

lemma length_map_back: "length (map_back env paths probs) = length paths"
  by (induction paths arbitrary: probs) (auto split: list.splits)

lemma length_analyze_batch_semantics:
  "length (analyze_batch_semantics env paths) = length paths"
  by (simp add: analyze_batch_semantics_def length_map_back Let_def split: option.split)

lemma length_analyze_batch:
  "analyze_batch env paths = Inr results \<Longrightarrow> length results = length paths"
  by (auto simp: analyze_batch_def length_analyze_batch_semantics Let_def split: if_splits)

lemma process_batch_failed:
  "analyze_batch env (map snd batch) = Inl e \<Longrightarrow> process_batch env st batch = st"
  by (simp add: process_batch_def)

lemma process_batch_images:
  assumes "analyze_batch env (map snd batch) = Inr results"
  shows "images (process_batch env st batch) = map (mark_processed (fst ` set batch)) (images st)"
proof -
  have "length results = length batch"
    using length_analyze_batch [OF assms] by simp
  then have "fst ` set (zip (map fst batch) results) = fst ` set batch"
    by (simp flip: set_map)
  with assms show ?thesis
    by (simp add: process_batch_def foldl_save_image_result_images)
qed

lemma process_batch_adds:
  "adds (case analyze_batch env (map snd batch) of
           Inl e \<Rightarrow> {}
         | Inr results \<Rightarrow> candidates_of (zip (map fst batch) results))
        (links st) (links (process_batch env st batch))"
  by (simp add: process_batch_def adds_refl foldl_save_image_result_adds split: sum.split)

section \<open>Existing links survive a worker run\<close>

lemma find_append_Some: "find P xs = Some x \<Longrightarrow> find P (xs @ ys) = Some x"
  by (induction xs) (auto split: if_splits)

lemma adds_filter_existing:
  assumes "adds S old new" and "list_ex (has_key i t) old"
  shows "filter (has_key i t) new = filter (has_key i t) old"
proof -
  from assms(1) obtain added where new: "new = old @ added"
      and fresh: "\<forall>l \<in> set added. link_key l \<notin> link_key ` set old"
    unfolding adds_def by blast
  from assms(2) have "(i, t) \<in> link_key ` set old"
    by (force simp: list_ex_iff has_key_link_key)
  with fresh have "\<forall>l \<in> set added. \<not> has_key i t l"
    by (auto simp: has_key_link_key)
  then have "filter (has_key i t) added = []"
    by (simp add: filter_empty_conv)
  with new show ?thesis by simp
qed

lemma adds_find_existing:
  assumes "adds S old new" and "find (has_key i t) old = Some l"
  shows "find (has_key i t) new = Some l"
proof -
  from assms(1) obtain added where "new = old @ added"
    unfolding adds_def by blast
  with assms(2) show ?thesis
    by (simp add: find_append_Some)
qed

lemma adds_distinct:
  assumes "adds S old new" and "distinct (map link_key old)"
  shows "distinct (map link_key new)"
proof -
  from assms(1) obtain added where "new = old @ added" "distinct (map link_key added)"
      "\<forall>l \<in> set added. link_key l \<notin> link_key ` set old"
    unfolding adds_def by blast
  with assms(2) show ?thesis by auto
qed

lemma foldl_process_batch_adds:
  "\<exists>S. adds S (links st) (links (foldl (process_batch env) st batches))"
proof (induction batches arbitrary: st)
  case Nil
  show ?case using adds_refl by auto
next
  case (Cons b batches)
  from Cons.IH [of "process_batch env st b"] obtain T
    where "adds T (links (process_batch env st b))
             (links (foldl (process_batch env) (process_batch env st b) batches))" ..
  from adds_trans [OF process_batch_adds this] show ?case
    by auto
qed

lemma run_adds: "\<exists>S. adds S (links st) (links (run_ai_processing_task env st))"
  using foldl_process_batch_adds [of st env] adds_refl [of _ "links st"]
  by (auto simp: run_ai_processing_task_def Let_def)

lemma found_has_key: "find (has_key i t) ls = Some l \<Longrightarrow> list_ex (has_key i t) ls"
  using found_iff [of "has_key i t" ls] by simp

text \<open>
  Claim C3. Whatever the analyzers return, a link that exists for an (image, tag) pair
  before the worker runs is found unchanged afterwards, with the same confidence, source
  and verified flag, and the links of that pair are the same rows as before, so no second
  link is created for it. This holds for one batch and for the whole run, and the
  (image, tag) keys of the link table stay pairwise different.
\<close>

theorem worker_keeps_existing_links:
  "(find (has_key i t) (links st) = Some l \<longrightarrow>
      find (has_key i t) (links (process_batch env st batch)) = Some l
      \<and> filter (has_key i t) (links (process_batch env st batch)) = filter (has_key i t) (links st)
      \<and> find (has_key i t) (links (run_ai_processing_task env st)) = Some l
      \<and> filter (has_key i t) (links (run_ai_processing_task env st))
          = filter (has_key i t) (links st))
   \<and> (distinct (map link_key (links st)) \<longrightarrow>
        distinct (map link_key (links (run_ai_processing_task env st))))"
proof (intro conjI impI)
  obtain S where run: "adds S (links st) (links (run_ai_processing_task env st))"
    using run_adds by blast
  note batch = process_batch_adds [where env = env and batch = batch and st = st]
  show "find (has_key i t) (links (process_batch env st batch)) = Some l"
    if "find (has_key i t) (links st) = Some l"
    using batch that by (rule adds_find_existing)
  show "filter (has_key i t) (links (process_batch env st batch)) = filter (has_key i t) (links st)"
    if "find (has_key i t) (links st) = Some l"
    using batch found_has_key [OF that] by (rule adds_filter_existing)
  show "find (has_key i t) (links (run_ai_processing_task env st)) = Some l"
    if "find (has_key i t) (links st) = Some l"
    using run that by (rule adds_find_existing)
  show "filter (has_key i t) (links (run_ai_processing_task env st))
          = filter (has_key i t) (links st)"
    if "find (has_key i t) (links st) = Some l"
    using run found_has_key [OF that] by (rule adds_filter_existing)
  show "distinct (map link_key (links (run_ai_processing_task env st)))"
    if "distinct (map link_key (links st))"
    using run that by (rule adds_distinct)
qed

theorem worker_keeps_existing_links_witness:
  "find (has_key 1 1) (links tagged_store)
     = Some \<lparr>link_image_id = 1, link_tag_id = 1, confidence = 1, source = ''manual'',
             is_verified = True\<rparr>
   \<and> find (has_key 1 1) (links (run_ai_processing_task reader tagged_store))
     = Some \<lparr>link_image_id = 1, link_tag_id = 1, confidence = 1, source = ''manual'',
             is_verified = True\<rparr>
   \<and> filter (has_key 1 1) (links (run_ai_processing_task reader tagged_store))
     = [\<lparr>link_image_id = 1, link_tag_id = 1, confidence = 1, source = ''manual'',
         is_verified = True\<rparr>]
   \<and> distinct (map link_key (links (run_ai_processing_task reader tagged_store)))"
proof -
  have found: "find (has_key 1 1) (links tagged_store)
     = Some \<lparr>link_image_id = 1, link_tag_id = 1, confidence = 1, source = ''manual'',
             is_verified = True\<rparr>"
    by (simp add: tagged_store_def has_key_def)
  have keys: "distinct (map link_key (links tagged_store))"
    by (simp add: tagged_store_def)
  have before: "filter (has_key 1 1) (links tagged_store)
     = [\<lparr>link_image_id = 1, link_tag_id = 1, confidence = 1, source = ''manual'',
         is_verified = True\<rparr>]"
    by (simp add: tagged_store_def has_key_def)
  show ?thesis
    using worker_keeps_existing_links
        [of 1 1 tagged_store
            "\<lparr>link_image_id = 1, link_tag_id = 1, confidence = 1, source = ''manual'',
              is_verified = True\<rparr>" reader "[]"]
      found keys before
    by simp
qed

section \<open>The processed flag\<close>

lemma mark_processed_union:
  "mark_processed B (mark_processed A img) = mark_processed (A \<union> B) img"
  by (simp add: mark_processed_def)

lemma foldl_process_batch_images:
  assumes "\<forall>b \<in> set batches. \<exists>r. analyze_batch env (map snd b) = Inr r"
  shows "images (foldl (process_batch env) st batches)
           = map (mark_processed (fst ` set (concat batches))) (images st)"
  using assms
proof (induction batches arbitrary: st)
  case Nil
  have "map (mark_processed {}) (images st) = images st"
    by (intro map_idI) (simp add: mark_processed_def)
  then show ?case by simp
next
  case (Cons b batches)
  from Cons.prems obtain r where r: "analyze_batch env (map snd b) = Inr r"
    by auto
  from Cons.prems have rest: "\<forall>b \<in> set batches. \<exists>r. analyze_batch env (map snd b) = Inr r"
    by simp
  have "images (foldl (process_batch env) (process_batch env st b) batches)
          = map (mark_processed (fst ` set (concat batches)))
              (map (mark_processed (fst ` set b)) (images st))"
    by (simp add: Cons.IH [OF rest] process_batch_images [OF r])
  then show ?case
    by (simp add: mark_processed_union image_Un o_def)
qed

lemma all_marked:
  assumes "\<forall>img \<in> set imgs. \<not> is_processed img \<longrightarrow> image_id img \<in> ids"
  shows "\<forall>img \<in> set (map (mark_processed ids) imgs). is_processed img"
  using assms by (auto simp: mark_processed_def)

lemma run_all_processed:
  assumes "\<forall>batch \<in> set (chunks BATCH_SIZE
                [(image_id img, path img). img \<leftarrow> images st, is_processed img = False]).
             \<exists>r. analyze_batch env (map snd batch) = Inr r"
  shows "\<forall>img \<in> set (images (run_ai_processing_task env st)). is_processed img"
proof -
  define worklist where
    "worklist = [(image_id img, path img). img \<leftarrow> images st, is_processed img = False]"
  have ids: "\<forall>img \<in> set (images st). \<not> is_processed img \<longrightarrow> image_id img \<in> fst ` set worklist"
    by (force simp: worklist_def)
  have run_eq: "run_ai_processing_task env st
      = (if worklist = [] then st else foldl (process_batch env) st (chunks BATCH_SIZE worklist))"
    unfolding run_ai_processing_task_def worklist_def Let_def ..
  have whole: "concat (chunks BATCH_SIZE worklist) = worklist"
    by (rule concat_chunks) (simp add: BATCH_SIZE_def)
  show ?thesis
  proof (cases "worklist = []")
    case True
    with ids have "\<forall>img \<in> set (images st). is_processed img"
      by auto
    with True run_eq show ?thesis
      by simp
  next
    case False
    have "images (foldl (process_batch env) st (chunks BATCH_SIZE worklist))
            = map (mark_processed (fst ` set (concat (chunks BATCH_SIZE worklist)))) (images st)"
      using assms unfolding worklist_def by (rule foldl_process_batch_images)
    with False run_eq whole have "images (run_ai_processing_task env st)
            = map (mark_processed (fst ` set worklist)) (images st)"
      by simp
    with all_marked [OF ids] show ?thesis by simp
  qed
qed

lemma adds_other_image:
  assumes "adds S old new" and "\<forall>c. (i, c) \<notin> S"
  shows "filter (\<lambda>l. link_image_id l = i) new = filter (\<lambda>l. link_image_id l = i) old"
proof -
  from assms(1) obtain added where new: "new = old @ added"
      and src: "\<forall>l \<in> set added. \<exists>(j, c) \<in> S. from_candidate j c l"
    unfolding adds_def by blast
  have "\<forall>l \<in> set added. link_image_id l \<noteq> i"
  proof
    fix l assume "l \<in> set added"
    with src obtain j c where "(j, c) \<in> S" "from_candidate j c l" by blast
    with assms(2) show "link_image_id l \<noteq> i"
      by (auto simp: from_candidate_def)
  qed
  then have "filter (\<lambda>l. link_image_id l = i) added = []"
    by (simp add: filter_empty_conv)
  with new show ?thesis by simp
qed

lemma process_batch_no_candidates:
  assumes "analyze_batch env (map snd batch) = Inr results"
    and "\<forall>data. (i, data) \<in> set (zip (map fst batch) results) \<longrightarrow> data = []"
  shows "filter (\<lambda>l. link_image_id l = i) (links (process_batch env st batch))
           = filter (\<lambda>l. link_image_id l = i) (links st)"
proof -
  have "adds (candidates_of (zip (map fst batch) results)) (links st)
          (links (process_batch env st batch))"
    using process_batch_adds [where env = env and batch = batch and st = st] assms(1) by simp
  moreover have "\<forall>c. (i, c) \<notin> candidates_of (zip (map fst batch) results)"
    using assms(2) by (auto simp: candidates_of_def)
  ultimately show ?thesis by (rule adds_other_image)
qed

lemma run_two_images:
  "run_ai_processing_task classifier two_images =
     \<lparr>albums = [],
      images = [(photo 1 ''/p/a.jpg'' ''h1'')\<lparr>is_processed := True\<rparr>,
                (photo 2 ''/p/b.jpg'' ''h2'')\<lparr>is_processed := True\<rparr>],
      tags = [\<lparr>tag_id = 1, tag_name = ''car'', tag_category = ''auto_classified''\<rparr>],
      links = [\<lparr>link_image_id = 1, link_tag_id = 1, confidence = 0.7, source = ''ai_clip'',
                is_verified = False\<rparr>]\<rparr>"
  by code_simp

lemma analyze_two_images:
  "analyze_batch classifier [''/p/a.jpg'', ''/p/b.jpg'']
     = Inr [[\<lparr>name = ''car'', ti_confidence = 0.7, ti_source = ''ai_clip'',
              category = Some ''auto_classified''\<rparr>], []]"
  by code_simp

lemma worklist_two_images:
  "chunks BATCH_SIZE [(image_id img, path img). img \<leftarrow> images two_images, is_processed img = False]
     = [[(1, ''/p/a.jpg''), (2, ''/p/b.jpg'')]]"
  by code_simp

text \<open>
  Claim C6. When the analysis of a batch returns, every image of the batch is marked
  processed and no other image changes, whatever the candidates were. An image with an
  empty candidate list is marked processed and gets no link; more generally an image
  all of whose results in the batch are empty keeps exactly the links it had. When the
  analysis of every batch returns, every image is processed after the run.
\<close>

theorem worker_marks_processed:
  "(analyze_batch env (map snd batch) = Inr results \<longrightarrow>
      images (process_batch env st batch)
        = map (mark_processed (fst ` set batch)) (images st)
      \<and> ((\<forall>data. (i, data) \<in> set (zip (map fst batch) results) \<longrightarrow> data = []) \<longrightarrow>
           filter (\<lambda>l. link_image_id l = i) (links (process_batch env st batch))
             = filter (\<lambda>l. link_image_id l = i) (links st)))
   \<and> links (save_image_result st (i, [])) = links st
   \<and> images (save_image_result st (i, [])) = map (mark_processed {i}) (images st)
   \<and> ((\<forall>batch \<in> set (chunks BATCH_SIZE
                [(image_id img, path img). img \<leftarrow> images st, is_processed img = False]).
          \<exists>r. analyze_batch env (map snd batch) = Inr r) \<longrightarrow>
        (\<forall>img \<in> set (images (run_ai_processing_task env st)). is_processed img))"
proof (intro conjI impI)
  show "images (process_batch env st batch)
        = map (mark_processed (fst ` set batch)) (images st)"
    if "analyze_batch env (map snd batch) = Inr results"
    using that by (rule process_batch_images)
  show "filter (\<lambda>l. link_image_id l = i) (links (process_batch env st batch))
             = filter (\<lambda>l. link_image_id l = i) (links st)"
    if "analyze_batch env (map snd batch) = Inr results"
      and "\<forall>data. (i, data) \<in> set (zip (map fst batch) results) \<longrightarrow> data = []"
    using that by (rule process_batch_no_candidates)
  show "links (save_image_result st (i, [])) = links st"
    by (simp add: save_image_result_def)
  show "images (save_image_result st (i, [])) = map (mark_processed {i}) (images st)"
    by (rule save_image_result_images)
  show "\<forall>img \<in> set (images (run_ai_processing_task env st)). is_processed img"
    if "\<forall>batch \<in> set (chunks BATCH_SIZE
                [(image_id img, path img). img \<leftarrow> images st, is_processed img = False]).
          \<exists>r. analyze_batch env (map snd batch) = Inr r"
    using that by (rule run_all_processed)
qed

theorem worker_marks_processed_witness:
  "analyze_batch classifier (map snd [(1, ''/p/a.jpg''), (2, ''/p/b.jpg'')])
     = Inr [[\<lparr>name = ''car'', ti_confidence = 0.7, ti_source = ''ai_clip'',
              category = Some ''auto_classified''\<rparr>], []]
   \<and> images (process_batch classifier two_images [(1, ''/p/a.jpg''), (2, ''/p/b.jpg'')])
     = [(photo 1 ''/p/a.jpg'' ''h1'')\<lparr>is_processed := True\<rparr>,
        (photo 2 ''/p/b.jpg'' ''h2'')\<lparr>is_processed := True\<rparr>]
   \<and> filter (\<lambda>l. link_image_id l = 2)
        (links (process_batch classifier two_images [(1, ''/p/a.jpg''), (2, ''/p/b.jpg'')]))
     = []
   \<and> is_processed (images (run_ai_processing_task classifier two_images) ! 0)
   \<and> is_processed (images (run_ai_processing_task classifier two_images) ! 1)
   \<and> links (run_ai_processing_task classifier two_images)
     = [\<lparr>link_image_id = 1, link_tag_id = 1, confidence = 0.7, source = ''ai_clip'',
         is_verified = False\<rparr>]"
proof -
  have an: "analyze_batch classifier (map snd [(1, ''/p/a.jpg''), (2, ''/p/b.jpg'')])
     = Inr [[\<lparr>name = ''car'', ti_confidence = 0.7, ti_source = ''ai_clip'',
              category = Some ''auto_classified''\<rparr>], []]"
    using analyze_two_images by simp
  have all_ok: "\<forall>batch \<in> set (chunks BATCH_SIZE
                [(image_id img, path img). img \<leftarrow> images two_images, is_processed img = False]).
          \<exists>r. analyze_batch classifier (map snd batch) = Inr r"
    unfolding worklist_two_images using an by simp
  have imgs: "images two_images = [photo 1 ''/p/a.jpg'' ''h1'', photo 2 ''/p/b.jpg'' ''h2'']"
    and lks: "links two_images = []"
    by (simp_all add: two_images_def empty_store_def)
  show ?thesis
    using worker_marks_processed
        [of classifier "[(1, ''/p/a.jpg''), (2, ''/p/b.jpg'')]"
            "[[\<lparr>name = ''car'', ti_confidence = 0.7, ti_source = ''ai_clip'',
                category = Some ''auto_classified''\<rparr>], []]" two_images 2]
      an all_ok imgs lks run_two_images
    by (simp add: mark_processed_def photo_def)
qed

section \<open>Text-recognizer links and the review queue\<close>

lemma label_items_source: "c \<in> set (label_items cfg image_probs) \<Longrightarrow> ti_source c = ''ai_clip''"
  by (auto simp: label_items_def clip_item_def)

lemma map_back_source:
  "xs \<in> set (map_back env paths probs) \<Longrightarrow> c \<in> set xs \<Longrightarrow> ti_source c = ''ai_clip''"
proof (induction paths arbitrary: probs)
  case Nil
  then show ?case by simp
next
  case (Cons p ps)
  then show ?case
    by (auto simp: label_items_source split: if_splits list.splits)
qed

lemma clip_source:
  assumes "xs \<in> set (analyze_batch_semantics env paths)" and "c \<in> set xs"
  shows "ti_source c = ''ai_clip''"
proof (cases "filter (load_pil_image env) paths = []")
  case True
  with assms show ?thesis
    by (simp add: analyze_batch_semantics_def Let_def)
next
  case False
  show ?thesis
  proof (cases "clip_probs env (filter (load_pil_image env) paths)")
    case None
    with False assms show ?thesis
      by (simp add: analyze_batch_semantics_def Let_def)
  next
    case (Some probs)
    with False assms have "xs \<in> set (map_back env paths probs)"
      by (simp add: analyze_batch_semantics_def Let_def)
    from map_back_source [OF this assms(2)] show ?thesis .
  qed
qed

lemma analyze_batch_nth:
  assumes "analyze_batch env paths = Inr results" and "k < length paths"
  shows "results ! k = analyze_batch_semantics env paths ! k @ analyze_image_text env (paths ! k)"
proof (cases "ocr_enabled (config env)")
  case True
  with assms(1) have "results = map2 (@) (analyze_batch_semantics env paths)
                                 (map (analyze_image_text env) paths)"
    by (simp add: analyze_batch_def Let_def split: if_splits)
  with assms(2) show ?thesis
    by (simp add: length_analyze_batch_semantics)
next
  case False
  with assms(1) have "results = map2 (@) (analyze_batch_semantics env paths)
                                 (replicate (length paths) [])"
    by (simp add: analyze_batch_def Let_def)
  with assms(2) False show ?thesis
    by (simp add: length_analyze_batch_semantics analyze_image_text_def)
qed

lemma analyze_batch_candidates:
  assumes an: "analyze_batch env (map snd batch) = Inr results"
    and mem: "(i, c) \<in> candidates_of (zip (map fst batch) results)"
  shows "\<exists>p. (i, p) \<in> set batch
           \<and> (ti_source c = ''ai_clip'' \<or> c \<in> set (analyze_image_text env p))"
proof -
  from mem obtain data where d: "(i, data) \<in> set (zip (map fst batch) results)" "c \<in> set data"
    by (auto simp: candidates_of_def)
  have len: "length results = length batch"
    using length_analyze_batch [OF an] by simp
  from d(1) len obtain k where k: "k < length batch" "map fst batch ! k = i" "results ! k = data"
    by (auto simp: in_set_zip)
  have "data = analyze_batch_semantics env (map snd batch) ! k
                 @ analyze_image_text env (map snd batch ! k)"
    using analyze_batch_nth [OF an, of k] k by simp
  with d(2) have "c \<in> set (analyze_batch_semantics env (map snd batch) ! k)
                   \<or> c \<in> set (analyze_image_text env (snd (batch ! k)))"
    using k(1) by auto
  moreover have "analyze_batch_semantics env (map snd batch) ! k
                   \<in> set (analyze_batch_semantics env (map snd batch))"
    using k(1) by (simp add: length_analyze_batch_semantics)
  moreover have "(i, snd (batch ! k)) \<in> set batch"
    using k(1,2) by (metis nth_map nth_mem prod.collapse)
  ultimately show ?thesis
    using clip_source by blast
qed

lemma process_batch_adds_from:
  "adds (worker_candidates env batch) (links st) (links (process_batch env st batch))"
proof (cases "analyze_batch env (map snd batch)")
  case (Inl e)
  then show ?thesis
    by (simp add: process_batch_failed adds_refl)
next
  case (Inr results)
  have "adds (candidates_of (zip (map fst batch) results)) (links st)
          (links (process_batch env st batch))"
    using process_batch_adds [where env = env and batch = batch and st = st] Inr by simp
  moreover have "candidates_of (zip (map fst batch) results) \<subseteq> worker_candidates env batch"
    using analyze_batch_candidates [OF Inr] by (auto simp: worker_candidates_def)
  ultimately show ?thesis by (rule adds_mono)
qed

lemma foldl_process_batch_adds_from:
  "adds (worker_candidates env (concat batches)) (links st)
     (links (foldl (process_batch env) st batches))"
proof (induction batches arbitrary: st)
  case Nil
  show ?case by (simp add: adds_refl)
next
  case (Cons b batches)
  have "adds (worker_candidates env b \<union> worker_candidates env (concat batches)) (links st)
          (links (foldl (process_batch env) (process_batch env st b) batches))"
    by (rule adds_trans [OF process_batch_adds_from Cons.IH])
  moreover have "worker_candidates env b \<union> worker_candidates env (concat batches)
                   \<subseteq> worker_candidates env (concat (b # batches))"
    by (auto simp: worker_candidates_def)
  ultimately have "adds (worker_candidates env (concat (b # batches))) (links st)
          (links (foldl (process_batch env) (process_batch env st b) batches))"
    by (rule adds_mono)
  then show ?case by simp
qed

lemma run_adds_from:
  "adds (worker_candidates env
           [(image_id img, path img). img \<leftarrow> images st, is_processed img = False])
     (links st) (links (run_ai_processing_task env st))"
proof -
  define worklist where
    "worklist = [(image_id img, path img). img \<leftarrow> images st, is_processed img = False]"
  have run_eq: "run_ai_processing_task env st
      = (if worklist = [] then st else foldl (process_batch env) st (chunks BATCH_SIZE worklist))"
    unfolding run_ai_processing_task_def worklist_def Let_def ..
  have whole: "concat (chunks BATCH_SIZE worklist) = worklist"
    by (rule concat_chunks) (simp add: BATCH_SIZE_def)
  have "adds (worker_candidates env worklist) (links st) (links (run_ai_processing_task env st))"
  proof (cases "worklist = []")
    case True
    with run_eq show ?thesis by (simp add: adds_refl)
  next
    case False
    with run_eq whole
      foldl_process_batch_adds_from [of env "chunks BATCH_SIZE worklist" st]
    show ?thesis by simp
  qed
  then show ?thesis unfolding worklist_def .
qed

lemma number_candidate_link:
  assumes "c \<in> set (analyze_image_text env p)" and "category c = Some ''number''"
    and "from_candidate i c l"
  shows "confidence l = 0.90 \<and> \<not> review_where l img tag"
proof -
  from analyze_image_text_shape [OF assms(1)] assms(2) have "ti_confidence c = 0.90"
    by auto
  with assms(3) show ?thesis
    by (simp add: from_candidate_def review_where_def)
qed

lemma text_candidate_link:
  assumes "c \<in> set (analyze_image_text env p)" and "category c = Some ''text''"
    and "from_candidate i c l"
  shows "confidence l = 0.80 \<and> (review_where l img tag \<longleftrightarrow> is_deleted img = False)"
proof -
  from analyze_image_text_shape [OF assms(1)] assms(2) have "ti_confidence c = 0.80"
    by auto
  with assms(3) show ?thesis
    by (simp add: from_candidate_def review_where_def)
qed

lemma reader_candidates:
  "analyze_image_text reader ''/p/a.jpg''
     = [\<lparr>name = ''42'', ti_confidence = 0.90, ti_source = ''ai_ocr'',
         category = Some ''number''\<rparr>,
        \<lparr>name = ''ABCD'', ti_confidence = 0.80, ti_source = ''ai_ocr'',
         category = Some ''text''\<rparr>]"
  by code_simp

text \<open>
  Claim C10, as stated, fails in its last part: the worker selects unprocessed images
  without looking at \<open>is_deleted\<close>, so it also tags a soft-deleted image, and the review
  selection excludes the links of soft-deleted images. The \<open>text\<close> link of confidence
  0.80 created here has not been reviewed and the queue is empty.
\<close>

theorem text_link_on_deleted_image_counterexample:
  "links (run_ai_processing_task reader deleted_store)
     = [\<lparr>link_image_id = 1, link_tag_id = 1, confidence = 0.7, source = ''ai_clip'',
         is_verified = False\<rparr>,
        \<lparr>link_image_id = 1, link_tag_id = 2, confidence = 0.90, source = ''ai_ocr'',
         is_verified = False\<rparr>,
        \<lparr>link_image_id = 1, link_tag_id = 3, confidence = 0.80, source = ''ai_ocr'',
         is_verified = False\<rparr>]
   \<and> tags (run_ai_processing_task reader deleted_store)
     = [\<lparr>tag_id = 1, tag_name = ''car'', tag_category = ''auto_classified''\<rparr>,
        \<lparr>tag_id = 2, tag_name = ''42'', tag_category = ''number''\<rparr>,
        \<lparr>tag_id = 3, tag_name = ''ABCD'', tag_category = ''text''\<rparr>]
   \<and> get_review_items 20 (run_ai_processing_task reader deleted_store) = []"
  by code_simp

text \<open>
  Claim C10, amended. Every link the worker adds is built from a candidate of an
  unprocessed image, unverified, with the candidate's confidence and source. A link
  built from a text-recognizer \<open>number\<close> candidate has confidence exactly 0.90 and is
  rejected by the selection, whatever its image and tag, so it is never in the review
  queue. A link built from a \<open>text\<close> candidate has confidence 0.80 and, as long as it
  is as the worker wrote it, is selected exactly when its image is not soft-deleted.
\<close>

theorem ocr_links_and_review:
  "(c \<in> set (analyze_image_text env p) \<and> from_candidate i c l \<longrightarrow>
      (category c = Some ''number'' \<longrightarrow>
         confidence l = 0.90 \<and> \<not> review_where l img tag
         \<and> (l, img, tag) \<notin> set (review_rows st'))
      \<and> (category c = Some ''text'' \<longrightarrow>
         confidence l = 0.80 \<and> (review_where l img tag \<longleftrightarrow> is_deleted img = False)))
   \<and> (\<exists>added. links (run_ai_processing_task env st) = links st @ added
        \<and> (\<forall>l \<in> set added.
              \<exists>(i, c) \<in> worker_candidates env
                  [(image_id img, path img). img \<leftarrow> images st, is_processed img = False].
                from_candidate i c l))"
proof (intro conjI impI)
  show "confidence l = 0.90" if "c \<in> set (analyze_image_text env p) \<and> from_candidate i c l"
    and "category c = Some ''number''"
    using number_candidate_link [of c env p i l] that by blast
  show "\<not> review_where l img tag" if "c \<in> set (analyze_image_text env p) \<and> from_candidate i c l"
    and "category c = Some ''number''"
    using number_candidate_link [of c env p i l] that by blast
  show "(l, img, tag) \<notin> set (review_rows st')"
    if "c \<in> set (analyze_image_text env p) \<and> from_candidate i c l"
    and "category c = Some ''number''"
    using number_candidate_link [of c env p i l] that by (auto simp: review_rows_iff)
  show "confidence l = 0.80" if "c \<in> set (analyze_image_text env p) \<and> from_candidate i c l"
    and "category c = Some ''text''"
    using text_candidate_link [of c env p i l] that by blast
  show "review_where l img tag \<longleftrightarrow> is_deleted img = False"
    if "c \<in> set (analyze_image_text env p) \<and> from_candidate i c l"
    and "category c = Some ''text''"
    using text_candidate_link [of c env p i l] that by blast
  show "\<exists>added. links (run_ai_processing_task env st) = links st @ added
        \<and> (\<forall>l \<in> set added.
              \<exists>(i, c) \<in> worker_candidates env
                  [(image_id img, path img). img \<leftarrow> images st, is_processed img = False].
                from_candidate i c l)"
    using run_adds_from [of env st] unfolding adds_def by blast
qed

theorem ocr_links_and_review_witness:
  "\<lparr>name = ''42'', ti_confidence = 0.90, ti_source = ''ai_ocr'', category = Some ''number''\<rparr>
     \<in> set (analyze_image_text reader ''/p/a.jpg'')
   \<and> from_candidate 1
        \<lparr>name = ''42'', ti_confidence = 0.90, ti_source = ''ai_ocr'', category = Some ''number''\<rparr>
        \<lparr>link_image_id = 1, link_tag_id = 2, confidence = 0.90, source = ''ai_ocr'',
         is_verified = False\<rparr>
   \<and> \<not> review_where
         \<lparr>link_image_id = 1, link_tag_id = 2, confidence = 0.90, source = ''ai_ocr'',
          is_verified = False\<rparr>
         (photo 1 ''/p/a.jpg'' ''h1'')
         \<lparr>tag_id = 2, tag_name = ''42'', tag_category = ''number''\<rparr>
   \<and> \<lparr>name = ''ABCD'', ti_confidence = 0.80, ti_source = ''ai_ocr'', category = Some ''text''\<rparr>
     \<in> set (analyze_image_text reader ''/p/a.jpg'')
   \<and> from_candidate 1
        \<lparr>name = ''ABCD'', ti_confidence = 0.80, ti_source = ''ai_ocr'', category = Some ''text''\<rparr>
        \<lparr>link_image_id = 1, link_tag_id = 3, confidence = 0.80, source = ''ai_ocr'',
         is_verified = False\<rparr>
   \<and> review_where
         \<lparr>link_image_id = 1, link_tag_id = 3, confidence = 0.80, source = ''ai_ocr'',
          is_verified = False\<rparr>
         (photo 1 ''/p/a.jpg'' ''h1'')
         \<lparr>tag_id = 3, tag_name = ''ABCD'', tag_category = ''text''\<rparr>
   \<and> \<not> review_where
         \<lparr>link_image_id = 1, link_tag_id = 3, confidence = 0.80, source = ''ai_ocr'',
          is_verified = False\<rparr>
         ((photo 1 ''/p/a.jpg'' ''h1'')\<lparr>is_deleted := True\<rparr>)
         \<lparr>tag_id = 3, tag_name = ''ABCD'', tag_category = ''text''\<rparr>"
  using ocr_links_and_review
      [of "\<lparr>name = ''42'', ti_confidence = 0.90, ti_source = ''ai_ocr'',
            category = Some ''number''\<rparr>" reader "''/p/a.jpg''" 1
          "\<lparr>link_image_id = 1, link_tag_id = 2, confidence = 0.90, source = ''ai_ocr'',
            is_verified = False\<rparr>"
          "photo 1 ''/p/a.jpg'' ''h1''"
          "\<lparr>tag_id = 2, tag_name = ''42'', tag_category = ''number''\<rparr>"]
    ocr_links_and_review
      [of "\<lparr>name = ''ABCD'', ti_confidence = 0.80, ti_source = ''ai_ocr'',
            category = Some ''text''\<rparr>" reader "''/p/a.jpg''" 1
          "\<lparr>link_image_id = 1, link_tag_id = 3, confidence = 0.80, source = ''ai_ocr'',
            is_verified = False\<rparr>"
          "photo 1 ''/p/a.jpg'' ''h1''"
          "\<lparr>tag_id = 3, tag_name = ''ABCD'', tag_category = ''text''\<rparr>"]
    ocr_links_and_review
      [of "\<lparr>name = ''ABCD'', ti_confidence = 0.80, ti_source = ''ai_ocr'',
            category = Some ''text''\<rparr>" reader "''/p/a.jpg''" 1
          "\<lparr>link_image_id = 1, link_tag_id = 3, confidence = 0.80, source = ''ai_ocr'',
            is_verified = False\<rparr>"
          "(photo 1 ''/p/a.jpg'' ''h1'')\<lparr>is_deleted := True\<rparr>"
          "\<lparr>tag_id = 3, tag_name = ''ABCD'', tag_category = ''text''\<rparr>"]
    reader_candidates
  by (simp add: from_candidate_def photo_def)

end
